theory Spec2Isabelle
  imports Main
begin

section \<open>Faults and fallible computations\<close>

text \<open>
  The evaluation engine of \<^verbatim>\<open>network.cc\<close> has no recoverable errors: every failure is an
  assertion of the engine or of a collaborator it calls. Each of them is a value of
  \<open>fault\<close>, and a computation that can fail returns \<open>fault + 'a\<close> (\<open>Inl\<close> the fault).
\<close>

datatype fault =
    AssertFalse
  | NotAFunctionNode
  | SlotAlreadySet
  | NotComputed
  | ParamMismatch
  | IndexNotFound
  | BadBuffer

definition and_then :: "fault + 'a \<Rightarrow> ('a \<Rightarrow> fault + 'b) \<Rightarrow> fault + 'b" where
  "and_then m f = (case m of Inl e \<Rightarrow> Inl e | Inr x \<Rightarrow> f x)"

text \<open>A range-based \<^verbatim>\<open>for\<close> loop whose body may fault: the first fault ends the loop.\<close>

fun for_each :: "('a \<Rightarrow> 's \<Rightarrow> fault + 's) \<Rightarrow> 'a list \<Rightarrow> 's \<Rightarrow> fault + 's" where
  "for_each body [] s = Inr s"
| "for_each body (x # xs) s = (case body x s of Inl e \<Rightarrow> Inl e | Inr s' \<Rightarrow> for_each body xs s')"

text \<open>\<^verbatim>\<open>xs[i]\<close> on an array reference: the index is asserted to be in range.\<close>

definition nth_checked :: "'a list \<Rightarrow> nat \<Rightarrow> fault + 'a" where
  "nth_checked xs i = (if i < length xs then Inr (xs ! i) else Inl IndexNotFound)"

text \<open>\<^verbatim>\<open>first_index(value)\<close>: the position of the first occurrence, asserted to exist.\<close>

fun first_index_opt :: "nat list \<Rightarrow> nat \<Rightarrow> nat option" where
  "first_index_opt [] v = None"
| "first_index_opt (x # xs) v = (if x = v then Some 0 else map_option Suc (first_index_opt xs v))"

definition first_index :: "nat list \<Rightarrow> nat \<Rightarrow> fault + nat" where
  "first_index xs v = (case first_index_opt xs v of None \<Rightarrow> Inl IndexNotFound | Some k \<Rightarrow> Inr k)"

section \<open>Data model\<close>

subsection \<open>Buffers and parameters\<close>

text \<open>
  A Single buffer holds one element per batch index; an element that was never written is
  \<open>None\<close>. A Vector buffer holds one collection per batch index. Elements are integers.
\<close>

type_synonym single_array = "int option list"
type_synonym vector_array = "int list list"

datatype buffer = ArrayBuf single_array | VectorBuf vector_array

datatype MFDataType = Single | Vector

datatype MFParamType =
    ReadonlySingleInput
  | SingleOutput
  | ReadonlyVectorInput
  | VectorOutput
  | MutableVector

text \<open>One parameter of a call, with the contents the callee sees or leaves behind.\<close>

datatype MFParam =
    ReadonlySingleArg single_array
  | SingleOutputArg single_array
  | ReadonlyVectorArg vector_array
  | VectorOutputArg vector_array
  | MutableVectorArg vector_array

type_synonym MFParams = "MFParam list"
type_synonym MFMask = "nat list"

text \<open>
  Modelled from the spec: the mask (\<^verbatim>\<open>MFMask\<close> is declared outside the sources). It is the
  ordered list of active indices; it exposes the count of active indices and the upper
  bound on the required buffer size, "max index + 1".
\<close>

definition indices_amount :: "MFMask \<Rightarrow> nat" where
  "indices_amount msk = length msk"

definition min_array_size :: "MFMask \<Rightarrow> nat" where
  "min_array_size msk = (if msk = [] then 0 else Suc (fold max msk 0))"

subsection \<open>The network\<close>

text \<open>
  Sockets and nodes are referenced by address in the source; here they live in arenas and
  an address is an index into its arena. The leaf computation of a function node is the
  opaque \<open>mf_call\<close>: from the mask and the parameters as built by the engine to the
  parameters as the leaf leaves them.
\<close>

record MultiFunction =
  param_types :: "MFParamType list"
  mf_call :: "MFMask \<Rightarrow> MFParams \<Rightarrow> MFParams"

record MFInputSocket =
  in_node :: nat
  in_index :: nat
  in_category :: MFDataType
  origin :: nat

record MFOutputSocket =
  out_node :: nat
  out_index :: nat
  out_category :: MFDataType
  targets :: "nat list"

record MFNode =
  is_function :: bool
  node_function :: MultiFunction
  inputs :: "nat list"
  outputs :: "nat list"
  input_param_indices :: "nat list"
  output_param_indices :: "nat list"

record MFNetwork =
  nodes :: "MFNode list"
  input_sockets :: "MFInputSocket list"
  output_sockets :: "MFOutputSocket list"

record MF_EvaluateNetwork =
  network :: MFNetwork
  m_inputs :: "nat list"
  m_outputs :: "nat list"

datatype MFSocket = InputSocket nat | OutputSocket nat

definition input_socket :: "MF_EvaluateNetwork \<Rightarrow> nat \<Rightarrow> MFInputSocket" where
  "input_socket fn i = input_sockets (network fn) ! i"

definition output_socket :: "MF_EvaluateNetwork \<Rightarrow> nat \<Rightarrow> MFOutputSocket" where
  "output_socket fn i = output_sockets (network fn) ! i"

definition node_of :: "MF_EvaluateNetwork \<Rightarrow> nat \<Rightarrow> MFNode" where
  "node_of fn n = nodes (network fn) ! n"

definition param_type :: "MultiFunction \<Rightarrow> nat \<Rightarrow> fault + MFParamType" where
  "param_type f i = nth_checked (param_types f) i"

definition param_indices :: "MultiFunction \<Rightarrow> nat list" where
  "param_indices f = [0..<length (param_types f)]"

subsection \<open>Value storage\<close>

text \<open>
  A stored value references a buffer, it does not hold one: a view references either a
  parameter of the caller or a buffer of the heap, and a vector array is a heap buffer.
\<close>

datatype buffer_ref = ParamRef nat | HeapRef nat

datatype stored = VirtualList buffer_ref | VirtualListList buffer_ref | VectorArray nat

record Storage =
  m_mask :: MFMask
  m_arrays :: "nat list"
  m_vector_arrays :: "nat list"
  m_value_for_inputs :: "nat \<rightharpoonup> stored"

text \<open>
  The state of one call: its storage, the heap of the buffers it allocated (a buffer's
  address is its position) and, in call order, the function nodes whose leaf was invoked.
\<close>

record eval_state =
  storage :: Storage
  heap :: "buffer list"
  invoked :: "nat list"

text \<open>
  Modelled from the spec: the operations of Value Storage (class \<^verbatim>\<open>Storage\<close> is declared in
  \<^verbatim>\<open>network.h\<close>, outside the sources). A value is associated with an input socket at most
  once, a socket is computed once a value has been associated, and reading a socket that
  has no value of the requested representation is fatal. Taking ownership registers a
  buffer for release; the \<^verbatim>\<open>_not_twice\<close> variant registers a buffer that is already
  registered no second time.
\<close>

definition Storage_new :: "MFMask \<Rightarrow> Storage" where
  "Storage_new msk =
     \<lparr>m_mask = msk, m_arrays = [], m_vector_arrays = [], m_value_for_inputs = Map.empty\<rparr>"

definition input_is_computed :: "Storage \<Rightarrow> nat \<Rightarrow> bool" where
  "input_is_computed st i = (m_value_for_inputs st i \<noteq> None)"

definition set_value_for_input :: "nat \<Rightarrow> stored \<Rightarrow> Storage \<Rightarrow> fault + Storage" where
  "set_value_for_input i v st =
     (if m_value_for_inputs st i \<noteq> None then Inl SlotAlreadySet
      else Inr (st\<lparr>m_value_for_inputs := (m_value_for_inputs st)(i \<mapsto> v)\<rparr>))"

definition set_virtual_list_for_input__non_owning ::
    "nat \<Rightarrow> buffer_ref \<Rightarrow> Storage \<Rightarrow> fault + Storage" where
  "set_virtual_list_for_input__non_owning i r st = set_value_for_input i (VirtualList r) st"

definition set_virtual_list_list_for_input__non_owning ::
    "nat \<Rightarrow> buffer_ref \<Rightarrow> Storage \<Rightarrow> fault + Storage" where
  "set_virtual_list_list_for_input__non_owning i r st =
     set_value_for_input i (VirtualListList r) st"

definition set_vector_array_for_input__non_owning ::
    "nat \<Rightarrow> nat \<Rightarrow> Storage \<Rightarrow> fault + Storage" where
  "set_vector_array_for_input__non_owning i a st = set_value_for_input i (VectorArray a) st"

definition get_virtual_list_for_input :: "Storage \<Rightarrow> nat \<Rightarrow> fault + buffer_ref" where
  "get_virtual_list_for_input st i =
     (case m_value_for_inputs st i of Some (VirtualList r) \<Rightarrow> Inr r | _ \<Rightarrow> Inl NotComputed)"

definition get_virtual_list_list_for_input :: "Storage \<Rightarrow> nat \<Rightarrow> fault + buffer_ref" where
  "get_virtual_list_list_for_input st i =
     (case m_value_for_inputs st i of
        Some (VirtualListList r) \<Rightarrow> Inr r
      | _ \<Rightarrow> Inl NotComputed)"

definition get_vector_array_for_input :: "Storage \<Rightarrow> nat \<Rightarrow> fault + nat" where
  "get_vector_array_for_input st i =
     (case m_value_for_inputs st i of Some (VectorArray a) \<Rightarrow> Inr a | _ \<Rightarrow> Inl NotComputed)"

definition take_array_ref_ownership :: "nat \<Rightarrow> Storage \<Rightarrow> Storage" where
  "take_array_ref_ownership a st = st\<lparr>m_arrays := m_arrays st @ [a]\<rparr>"

definition take_vector_array_ownership :: "nat \<Rightarrow> Storage \<Rightarrow> Storage" where
  "take_vector_array_ownership a st = st\<lparr>m_vector_arrays := m_vector_arrays st @ [a]\<rparr>"

definition take_vector_array_ownership__not_twice :: "nat \<Rightarrow> Storage \<Rightarrow> Storage" where
  "take_vector_array_ownership__not_twice a st =
     (if a \<in> set (m_vector_arrays st) then st else take_vector_array_ownership a st)"

text \<open>
  Modelled from the spec: at call end every registered buffer is released exactly once.
  The destructor of \<^verbatim>\<open>Storage\<close> walks its two registries; the result lists the addresses
  it releases, one entry per release.
\<close>

definition Storage_release :: "Storage \<Rightarrow> nat list" where
  "Storage_release st = m_vector_arrays st @ m_arrays st"


section \<open>Views and caller parameters\<close>

text \<open>
  Modelled from the spec: the caller-supplied call arguments (\<^verbatim>\<open>MFParams\<close> is declared
  outside the sources): a read-only view per declared network input and a writable
  destination per declared network output. An accessor asserts that the parameter at the
  index has the requested category.
\<close>

definition readonly_single_input :: "MFParams \<Rightarrow> nat \<Rightarrow> fault + buffer_ref" where
  "readonly_single_input params i =
     (if i < length params then
        (case params ! i of ReadonlySingleArg xs \<Rightarrow> Inr (ParamRef i) | _ \<Rightarrow> Inl ParamMismatch)
      else Inl ParamMismatch)"

definition readonly_vector_input :: "MFParams \<Rightarrow> nat \<Rightarrow> fault + buffer_ref" where
  "readonly_vector_input params i =
     (if i < length params then
        (case params ! i of ReadonlyVectorArg xs \<Rightarrow> Inr (ParamRef i) | _ \<Rightarrow> Inl ParamMismatch)
      else Inl ParamMismatch)"

definition single_output :: "MFParams \<Rightarrow> nat \<Rightarrow> fault + single_array" where
  "single_output params i =
     (if i < length params then
        (case params ! i of SingleOutputArg xs \<Rightarrow> Inr xs | _ \<Rightarrow> Inl ParamMismatch)
      else Inl ParamMismatch)"

definition vector_output :: "MFParams \<Rightarrow> nat \<Rightarrow> fault + vector_array" where
  "vector_output params i =
     (if i < length params then
        (case params ! i of VectorOutputArg xs \<Rightarrow> Inr xs | _ \<Rightarrow> Inl ParamMismatch)
      else Inl ParamMismatch)"

text \<open>The contents a view shows: those of the caller's parameter or of the heap buffer.\<close>

definition single_values :: "MFParams \<Rightarrow> buffer list \<Rightarrow> buffer_ref \<Rightarrow> fault + single_array" where
  "single_values params h r =
     (case r of
        ParamRef i \<Rightarrow>
          (if i < length params then
             (case params ! i of ReadonlySingleArg xs \<Rightarrow> Inr xs | _ \<Rightarrow> Inl BadBuffer)
           else Inl BadBuffer)
      | HeapRef a \<Rightarrow>
          (if a < length h then (case h ! a of ArrayBuf xs \<Rightarrow> Inr xs | _ \<Rightarrow> Inl BadBuffer)
           else Inl BadBuffer))"

definition vector_values :: "MFParams \<Rightarrow> buffer list \<Rightarrow> buffer_ref \<Rightarrow> fault + vector_array" where
  "vector_values params h r =
     (case r of
        ParamRef i \<Rightarrow>
          (if i < length params then
             (case params ! i of ReadonlyVectorArg xs \<Rightarrow> Inr xs | _ \<Rightarrow> Inl BadBuffer)
           else Inl BadBuffer)
      | HeapRef a \<Rightarrow>
          (if a < length h then (case h ! a of VectorBuf xs \<Rightarrow> Inr xs | _ \<Rightarrow> Inl BadBuffer)
           else Inl BadBuffer))"

text \<open>
  Modelled from the spec: the typed buffer allocator and the buffers' per-index operations
  (\<^verbatim>\<open>allocate_array\<close>, \<^verbatim>\<open>GenericVectorArray\<close> and \<^verbatim>\<open>GenericMutableArrayRef\<close> are declared
  outside the sources): an uninitialized Single buffer of a length, an empty
  Vector-of-collections of a length, per-index extension of a collection by a copy of
  given elements, and per-index copy of one element into a Single buffer.
\<close>

definition allocate_array :: "nat \<Rightarrow> single_array" where
  "allocate_array n = replicate n None"

definition GenericVectorArray_new :: "nat \<Rightarrow> vector_array" where
  "GenericVectorArray_new n = replicate n []"

definition extend_single__copy :: "nat \<Rightarrow> int list \<Rightarrow> vector_array \<Rightarrow> fault + vector_array" where
  "extend_single__copy i xs va =
     (if i < length va then Inr (va[i := va ! i @ xs]) else Inl BadBuffer)"

definition copy_in__uninitialized :: "nat \<Rightarrow> int option \<Rightarrow> single_array \<Rightarrow> fault + single_array" where
  "copy_in__uninitialized i x arr = (if i < length arr then Inr (arr[i := x]) else Inl BadBuffer)"

text \<open>Allocation on the heap of the call: the new buffer's address is the next position.\<close>

definition heap_new :: "buffer \<Rightarrow> buffer list \<Rightarrow> nat \<times> buffer list" where
  "heap_new b h = (length h, h @ [b])"

section \<open>Binding the network inputs\<close>

text \<open>
  The deep copy made for a mutable-vector consumer (lines 43--47 and 201--205): a new
  vector array of the size of the source, every index extended by the source's collection.
\<close>

definition copy_vector_array :: "vector_array \<Rightarrow> fault + vector_array" where
  "copy_vector_array src =
     for_each (\<lambda>i. extend_single__copy i (src ! i)) [0..<length src]
       (GenericVectorArray_new (length src))"

definition in_storage :: "(Storage \<Rightarrow> fault + Storage) \<Rightarrow> eval_state \<Rightarrow> fault + eval_state" where
  "in_storage f s = and_then (f (storage s)) (\<lambda>st. Inr (s\<lparr>storage := st\<rparr>))"

definition bind_vector_input_target ::
    "MF_EvaluateNetwork \<Rightarrow> MFParams \<Rightarrow> buffer_ref \<Rightarrow> nat \<Rightarrow> eval_state \<Rightarrow> fault + eval_state" where
  "bind_vector_input_target fn params input_list_list target s =
     (let target_node = node_of fn (in_node (input_socket fn target)) in
      if is_function target_node then
        and_then (nth_checked (input_param_indices target_node) (in_index (input_socket fn target)))
        (\<lambda>param_index.
        and_then (param_type (node_function target_node) param_index)
        (\<lambda>pt.
          if pt = ReadonlyVectorInput then
            in_storage (set_virtual_list_list_for_input__non_owning target input_list_list) s
          else if pt = MutableVector then
            and_then (vector_values params (heap s) input_list_list)
            (\<lambda>src.
            and_then (copy_vector_array src)
            (\<lambda>copied.
            let (vector_array, h) = heap_new (VectorBuf copied) (heap s) in
            and_then (set_vector_array_for_input__non_owning target vector_array (storage s))
            (\<lambda>st. Inr (s\<lparr>storage := take_vector_array_ownership vector_array st, heap := h\<rparr>))))
          else Inl AssertFalse))
      else
        in_storage (set_virtual_list_list_for_input__non_owning target input_list_list) s)"

definition copy_input_to_storage ::
    "MF_EvaluateNetwork \<Rightarrow> MFParams \<Rightarrow> nat \<Rightarrow> eval_state \<Rightarrow> fault + eval_state" where
  "copy_input_to_storage fn params i s =
     (let socket = output_socket fn (m_inputs fn ! i) in
      case out_category socket of
        Single \<Rightarrow>
          and_then (readonly_single_input params i)
          (\<lambda>input_list.
            for_each
              (\<lambda>target. in_storage (set_virtual_list_for_input__non_owning target input_list))
              (targets socket) s)
      | Vector \<Rightarrow>
          and_then (readonly_vector_input params i)
          (\<lambda>input_list_list.
            for_each (bind_vector_input_target fn params input_list_list) (targets socket) s))"

definition copy_inputs_to_storage ::
    "MF_EvaluateNetwork \<Rightarrow> MFParams \<Rightarrow> eval_state \<Rightarrow> fault + eval_state" where
  "copy_inputs_to_storage fn params s =
     for_each (copy_input_to_storage fn params) [0..<length (m_inputs fn)] s"


section \<open>Invoking a function node and forwarding its outputs\<close>

text \<open>
  What the parameter loop of \<^verbatim>\<open>compute_and_forward_outputs\<close> (lines 122--170) builds: the
  parameters of the leaf call, the outputs to forward with the heap address of their
  buffer, and the heap with the buffers allocated so far. The leaf writes through
  pointers; \<open>written_buffers\<close> records, for each writable parameter, its position in the
  parameter list and the address of the buffer behind it.
\<close>

record params_builder =
  built_params :: MFParams
  written_buffers :: "(nat \<times> nat) list"
  single_outputs_to_forward :: "(nat \<times> nat) list"
  vector_outputs_to_forward :: "(nat \<times> nat) list"
  builder_heap :: "buffer list"

definition add_param ::
    "MFParams \<Rightarrow> MFNode \<Rightarrow> nat \<Rightarrow> Storage \<Rightarrow> nat \<Rightarrow> params_builder \<Rightarrow> fault + params_builder" where
  "add_param params function_node array_size st param_index b =
     and_then (param_type (node_function function_node) param_index)
     (\<lambda>pt. case pt of
        ReadonlySingleInput \<Rightarrow>
          and_then (first_index (input_param_indices function_node) param_index)
          (\<lambda>input_socket_index.
          and_then (nth_checked (inputs function_node) input_socket_index)
          (\<lambda>input_socket.
          and_then (get_virtual_list_for_input st input_socket)
          (\<lambda>vals.
          and_then (single_values params (builder_heap b) vals)
          (\<lambda>xs. Inr (b\<lparr>built_params := built_params b @ [ReadonlySingleArg xs]\<rparr>)))))
      | ReadonlyVectorInput \<Rightarrow>
          and_then (first_index (input_param_indices function_node) param_index)
          (\<lambda>input_socket_index.
          and_then (nth_checked (inputs function_node) input_socket_index)
          (\<lambda>input_socket.
          and_then (get_virtual_list_list_for_input st input_socket)
          (\<lambda>vals.
          and_then (vector_values params (builder_heap b) vals)
          (\<lambda>xs. Inr (b\<lparr>built_params := built_params b @ [ReadonlyVectorArg xs]\<rparr>)))))
      | SingleOutput \<Rightarrow>
          and_then (first_index (output_param_indices function_node) param_index)
          (\<lambda>output_socket_index.
          and_then (nth_checked (outputs function_node) output_socket_index)
          (\<lambda>output_socket.
          let (values_destination, h) =
                heap_new (ArrayBuf (allocate_array array_size)) (builder_heap b) in
          Inr (b\<lparr>built_params := built_params b @ [SingleOutputArg (allocate_array array_size)],
                 written_buffers :=
                   written_buffers b @ [(length (built_params b), values_destination)],
                 single_outputs_to_forward :=
                   single_outputs_to_forward b @ [(output_socket, values_destination)],
                 builder_heap := h\<rparr>)))
      | VectorOutput \<Rightarrow>
          and_then (first_index (output_param_indices function_node) param_index)
          (\<lambda>output_socket_index.
          and_then (nth_checked (outputs function_node) output_socket_index)
          (\<lambda>output_socket.
          let (values_destination, h) =
                heap_new (VectorBuf (GenericVectorArray_new array_size)) (builder_heap b) in
          Inr (b\<lparr>built_params :=
                   built_params b @ [VectorOutputArg (GenericVectorArray_new array_size)],
                 written_buffers :=
                   written_buffers b @ [(length (built_params b), values_destination)],
                 vector_outputs_to_forward :=
                   vector_outputs_to_forward b @ [(output_socket, values_destination)],
                 builder_heap := h\<rparr>)))
      | MutableVector \<Rightarrow>
          and_then (first_index (input_param_indices function_node) param_index)
          (\<lambda>input_socket_index.
          and_then (nth_checked (inputs function_node) input_socket_index)
          (\<lambda>input_socket.
          and_then (first_index (output_param_indices function_node) param_index)
          (\<lambda>output_socket_index.
          and_then (nth_checked (outputs function_node) output_socket_index)
          (\<lambda>output_socket.
          and_then (get_vector_array_for_input st input_socket)
          (\<lambda>vals.
          and_then (vector_values params (builder_heap b) (HeapRef vals))
          (\<lambda>xs.
          Inr (b\<lparr>built_params := built_params b @ [MutableVectorArg xs],
                 written_buffers := written_buffers b @ [(length (built_params b), vals)],
                 vector_outputs_to_forward :=
                   vector_outputs_to_forward b @ [(output_socket, vals)]\<rparr>))))))))"

text \<open>
  The effect of the leaf call on the heap. A buffer has a fixed number of rows, which the
  leaf cannot change: the rows the leaf returns replace the buffer's rows, up to the
  buffer's length.
\<close>

definition overwrite :: "'a list \<Rightarrow> 'a list \<Rightarrow> 'a list" where
  "overwrite old new = take (length old) new @ drop (length new) old"

definition write_back :: "MFParams \<Rightarrow> nat \<times> nat \<Rightarrow> buffer list \<Rightarrow> buffer list" where
  "write_back results pa h =
     (let (p, a) = pa in
      if p < length results \<and> a < length h then
        (case (results ! p, h ! a) of
           (SingleOutputArg new, ArrayBuf old) \<Rightarrow> h[a := ArrayBuf (overwrite old new)]
         | (VectorOutputArg new, VectorBuf old) \<Rightarrow> h[a := VectorBuf (overwrite old new)]
         | (MutableVectorArg new, VectorBuf old) \<Rightarrow> h[a := VectorBuf (overwrite old new)]
         | _ \<Rightarrow> h)
      else h)"

definition forward_single_output ::
    "MF_EvaluateNetwork \<Rightarrow> nat \<times> nat \<Rightarrow> eval_state \<Rightarrow> fault + eval_state" where
  "forward_single_output fn single_forward_info s =
     (let (output_socket_id, vals) = single_forward_info in
      for_each
        (\<lambda>target. in_storage (set_virtual_list_for_input__non_owning target (HeapRef vals)))
        (targets (output_socket fn output_socket_id))
        (s\<lparr>storage := take_array_ref_ownership vals (storage s)\<rparr>))"

definition forward_vector_target ::
    "MF_EvaluateNetwork \<Rightarrow> nat \<Rightarrow> nat \<Rightarrow> eval_state \<Rightarrow> fault + eval_state" where
  "forward_vector_target fn vals target s =
     (let target_node = node_of fn (in_node (input_socket fn target)) in
      if is_function target_node then
        and_then (nth_checked (input_param_indices target_node) (in_index (input_socket fn target)))
        (\<lambda>param_index.
        and_then (param_type (node_function target_node) param_index)
        (\<lambda>pt.
          if pt = ReadonlyVectorInput then
            in_storage (set_virtual_list_list_for_input__non_owning target (HeapRef vals)) s
          else if pt = MutableVector then
            and_then (vector_values [] (heap s) (HeapRef vals))
            (\<lambda>src.
            and_then (copy_vector_array src)
            (\<lambda>copied.
            let (copied_values, h) = heap_new (VectorBuf copied) (heap s) in
            and_then
              (set_vector_array_for_input__non_owning target copied_values
                 (take_vector_array_ownership copied_values (storage s)))
              (\<lambda>st. Inr (s\<lparr>storage := st, heap := h\<rparr>))))
          else Inl AssertFalse))
      else if target \<in> set (m_outputs fn) then
        in_storage (set_virtual_list_list_for_input__non_owning target (HeapRef vals)) s
      else Inr s)"

definition forward_vector_output ::
    "MF_EvaluateNetwork \<Rightarrow> nat \<times> nat \<Rightarrow> eval_state \<Rightarrow> fault + eval_state" where
  "forward_vector_output fn vector_forward_info s =
     (let (output_socket_id, vals) = vector_forward_info in
      for_each (forward_vector_target fn vals)
        (targets (output_socket fn output_socket_id))
        (s\<lparr>storage := take_vector_array_ownership__not_twice vals (storage s)\<rparr>))"

definition new_builder :: "buffer list \<Rightarrow> params_builder" where
  "new_builder h =
     \<lparr>built_params = [], written_buffers = [], single_outputs_to_forward = [],
      vector_outputs_to_forward = [], builder_heap = h\<rparr>"

definition compute_and_forward_outputs ::
    "MF_EvaluateNetwork \<Rightarrow> MFMask \<Rightarrow> MFParams \<Rightarrow> nat \<Rightarrow> eval_state \<Rightarrow> fault + eval_state" where
  "compute_and_forward_outputs fn msk params function_node_id s =
     (let array_size = min_array_size msk;
          function_node = node_of fn function_node_id;
          f = node_function function_node in
      and_then
        (for_each (add_param params function_node array_size (storage s)) (param_indices f)
           (new_builder (heap s)))
        (\<lambda>b.
          let results = mf_call f msk (built_params b);
              h = fold (write_back results) (written_buffers b) (builder_heap b);
              s1 = s\<lparr>heap := h, invoked := invoked s @ [function_node_id]\<rparr> in
          and_then (for_each (forward_single_output fn) (single_outputs_to_forward b) s1)
          (\<lambda>s2. for_each (forward_vector_output fn) (vector_outputs_to_forward b) s2)))"

section \<open>The scheduler\<close>

text \<open>
  The scan of a function node's inputs (lines 91--97): every input that is not computed
  is pushed, and counted in a 32-bit unsigned counter.
\<close>

fun push_not_computed_inputs ::
    "Storage \<Rightarrow> nat list \<Rightarrow> nat \<times> MFSocket list \<Rightarrow> nat \<times> MFSocket list" where
  "push_not_computed_inputs st [] acc = acc"
| "push_not_computed_inputs st (i # is) (n, sockets_to_compute) =
     push_not_computed_inputs st is
       (if \<not> input_is_computed st i then ((n + 1) mod 2 ^ 32, InputSocket i # sockets_to_compute)
        else (n, sockets_to_compute))"

text \<open>One iteration of the main loop (lines 75--104); the top of the stack is its head.\<close>

definition scheduler_step ::
    "MF_EvaluateNetwork \<Rightarrow> MFMask \<Rightarrow> MFParams \<Rightarrow> MFSocket list \<times> eval_state
      \<Rightarrow> fault + MFSocket list \<times> eval_state" where
  "scheduler_step fn msk params cfg =
     (let (sockets_to_compute, s) = cfg in
      case hd sockets_to_compute of
        InputSocket i \<Rightarrow>
          if input_is_computed (storage s) i then Inr (tl sockets_to_compute, s)
          else Inr (OutputSocket (origin (input_socket fn i)) # sockets_to_compute, s)
      | OutputSocket out \<Rightarrow>
          let function_node_id = out_node (output_socket fn out) in
          if \<not> is_function (node_of fn function_node_id) then Inl NotAFunctionNode
          else
            let (not_computed_inputs_amount, pushed) =
                  push_not_computed_inputs (storage s)
                    (inputs (node_of fn function_node_id)) (0, sockets_to_compute) in
            if not_computed_inputs_amount = 0 then
              and_then (compute_and_forward_outputs fn msk params function_node_id s)
                (\<lambda>s'. Inr (tl pushed, s'))
            else Inr (pushed, s))"

partial_function (option) scheduler_loop ::
    "MF_EvaluateNetwork \<Rightarrow> MFMask \<Rightarrow> MFParams \<Rightarrow> MFSocket list \<times> eval_state
      \<Rightarrow> (fault + eval_state) option" where
  "scheduler_loop fn msk params cfg =
     (if fst cfg = [] then Some (Inr (snd cfg))
      else
        (case scheduler_step fn msk params cfg of
           Inl e \<Rightarrow> Some (Inl e)
         | Inr cfg' \<Rightarrow> scheduler_loop fn msk params cfg'))"

declare scheduler_loop.simps [code]

definition evaluate_network_to_compute_outputs ::
    "MF_EvaluateNetwork \<Rightarrow> MFMask \<Rightarrow> MFParams \<Rightarrow> eval_state \<Rightarrow> (fault + eval_state) option" where
  "evaluate_network_to_compute_outputs fn msk params s =
     scheduler_loop fn msk params (rev (map InputSocket (m_outputs fn)), s)"

section \<open>Materializing the outputs and the whole call\<close>

definition copy_output_to_params ::
    "MF_EvaluateNetwork \<Rightarrow> MFMask \<Rightarrow> eval_state \<Rightarrow> nat \<Rightarrow> MFParams \<Rightarrow> fault + MFParams" where
  "copy_output_to_params fn msk s output_index params =
     (let global_param_index = length (m_inputs fn) + output_index;
          socket = m_outputs fn ! output_index in
      case in_category (input_socket fn socket) of
        Single \<Rightarrow>
          and_then (get_virtual_list_for_input (storage s) socket)
          (\<lambda>vals.
          and_then (single_values params (heap s) vals)
          (\<lambda>xs.
          and_then (single_output params global_param_index)
          (\<lambda>output_values.
          and_then
            (for_each (\<lambda>i dst. and_then (nth_checked xs i) (\<lambda>x. copy_in__uninitialized i x dst))
               msk output_values)
          (\<lambda>dst. Inr (params[global_param_index := SingleOutputArg dst])))))
      | Vector \<Rightarrow>
          and_then (get_virtual_list_list_for_input (storage s) socket)
          (\<lambda>vals.
          and_then (vector_values params (heap s) vals)
          (\<lambda>xs.
          and_then (vector_output params global_param_index)
          (\<lambda>output_values.
          and_then
            (for_each (\<lambda>i dst. and_then (nth_checked xs i) (\<lambda>x. extend_single__copy i x dst))
               msk output_values)
          (\<lambda>dst. Inr (params[global_param_index := VectorOutputArg dst]))))))"

definition copy_computed_values_to_outputs ::
    "MF_EvaluateNetwork \<Rightarrow> MFMask \<Rightarrow> eval_state \<Rightarrow> MFParams \<Rightarrow> fault + MFParams" where
  "copy_computed_values_to_outputs fn msk s params =
     for_each (copy_output_to_params fn msk s) [0..<length (m_outputs fn)] params"

text \<open>
  A call returns the caller's parameters as it leaves them and, when a storage was
  created, the final state of the evaluation. \<open>None\<close> is a call that never returns.
\<close>

definition new_state :: "MFMask \<Rightarrow> eval_state" where
  "new_state msk = \<lparr>storage = Storage_new msk, heap = [], invoked = []\<rparr>"

definition call ::
    "MF_EvaluateNetwork \<Rightarrow> MFMask \<Rightarrow> MFParams \<Rightarrow> (fault + MFParams \<times> eval_state option) option" where
  "call fn msk params =
     (if indices_amount msk = 0 then Some (Inr (params, None))
      else
        (case copy_inputs_to_storage fn params (new_state msk) of
           Inl e \<Rightarrow> Some (Inl e)
         | Inr s0 \<Rightarrow>
             (case evaluate_network_to_compute_outputs fn msk params s0 of
                None \<Rightarrow> None
              | Some (Inl e) \<Rightarrow> Some (Inl e)
              | Some (Inr s1) \<Rightarrow>
                  (case copy_computed_values_to_outputs fn msk s1 params of
                     Inl e \<Rightarrow> Some (Inl e)
                   | Inr params' \<Rightarrow> Some (Inr (params', Some s1))))))"


section \<open>Well-formed networks and calls\<close>

text \<open>
  The engine assumes a validated graph. The category of data an input socket consumes and
  an output socket produces: for a socket of a function node the category of its
  parameter, for a socket of a boundary node the category the socket declares.
\<close>

definition input_param_type :: "MF_EvaluateNetwork \<Rightarrow> nat \<Rightarrow> MFParamType" where
  "input_param_type fn i =
     param_types (node_function (node_of fn (in_node (input_socket fn i))))
       ! (input_param_indices (node_of fn (in_node (input_socket fn i)))
            ! in_index (input_socket fn i))"

definition output_param_type :: "MF_EvaluateNetwork \<Rightarrow> nat \<Rightarrow> MFParamType" where
  "output_param_type fn out =
     param_types (node_function (node_of fn (out_node (output_socket fn out))))
       ! (output_param_indices (node_of fn (out_node (output_socket fn out)))
            ! out_index (output_socket fn out))"

definition in_kind :: "MF_EvaluateNetwork \<Rightarrow> nat \<Rightarrow> MFDataType" where
  "in_kind fn i =
     (if is_function (node_of fn (in_node (input_socket fn i))) then
        (if input_param_type fn i = ReadonlySingleInput then Single else Vector)
      else in_category (input_socket fn i))"

definition out_kind :: "MF_EvaluateNetwork \<Rightarrow> nat \<Rightarrow> MFDataType" where
  "out_kind fn out =
     (if is_function (node_of fn (out_node (output_socket fn out))) then
        (if output_param_type fn out = SingleOutput then Single else Vector)
      else out_category (output_socket fn out))"

definition is_input_param :: "MFParamType \<Rightarrow> bool" where
  "is_input_param pt = (pt = ReadonlySingleInput \<or> pt = ReadonlyVectorInput \<or> pt = MutableVector)"

definition is_output_param :: "MFParamType \<Rightarrow> bool" where
  "is_output_param pt = (pt = SingleOutput \<or> pt = VectorOutput \<or> pt = MutableVector)"

text \<open>
  A node lists sockets that are its own, at their index; a function node maps its input
  sockets one-to-one to the input parameters of its function and its output sockets
  one-to-one to the output parameters. The number of inputs fits the 32-bit counter of the
  scheduler (the size of a vector is a 32-bit unsigned integer in the source).
\<close>

definition wf_node :: "MF_EvaluateNetwork \<Rightarrow> nat \<Rightarrow> bool" where
  "wf_node fn n =
     (let nd = node_of fn n; pts = param_types (node_function nd) in
      list_all (\<lambda>k. inputs nd ! k < length (input_sockets (network fn))
                   \<and> in_node (input_socket fn (inputs nd ! k)) = n
                   \<and> in_index (input_socket fn (inputs nd ! k)) = k) [0..<length (inputs nd)]
      \<and> list_all (\<lambda>k. outputs nd ! k < length (output_sockets (network fn))
                   \<and> out_node (output_socket fn (outputs nd ! k)) = n
                   \<and> out_index (output_socket fn (outputs nd ! k)) = k) [0..<length (outputs nd)]
      \<and> (is_function nd \<longrightarrow>
            length (input_param_indices nd) = length (inputs nd)
          \<and> length (output_param_indices nd) = length (outputs nd)
          \<and> distinct (input_param_indices nd)
          \<and> distinct (output_param_indices nd)
          \<and> list_all (\<lambda>p. p < length pts \<and> is_input_param (pts ! p)) (input_param_indices nd)
          \<and> list_all (\<lambda>p. p < length pts \<and> is_output_param (pts ! p)) (output_param_indices nd)
          \<and> list_all (\<lambda>p. (is_input_param (pts ! p) \<longrightarrow> p \<in> set (input_param_indices nd))
                        \<and> (is_output_param (pts ! p) \<longrightarrow> p \<in> set (output_param_indices nd)))
               [0..<length pts]
          \<and> length (inputs nd) < 2 ^ 32))"

text \<open>
  An input socket sits on its node at its index, is a target of its one origin, consumes
  the category its origin produces, and its origin is an output of a function node or a
  declared network input.
\<close>

definition wf_input_socket :: "MF_EvaluateNetwork \<Rightarrow> nat \<Rightarrow> bool" where
  "wf_input_socket fn i =
     (let sock = input_socket fn i in
      in_node sock < length (nodes (network fn))
      \<and> in_index sock < length (inputs (node_of fn (in_node sock)))
      \<and> inputs (node_of fn (in_node sock)) ! in_index sock = i
      \<and> origin sock < length (output_sockets (network fn))
      \<and> i \<in> set (targets (output_socket fn (origin sock)))
      \<and> in_kind fn i = out_kind fn (origin sock)
      \<and> (is_function (node_of fn (out_node (output_socket fn (origin sock))))
          \<or> origin sock \<in> set (m_inputs fn)))"

definition wf_output_socket :: "MF_EvaluateNetwork \<Rightarrow> nat \<Rightarrow> bool" where
  "wf_output_socket fn out =
     (let sock = output_socket fn out in
      out_node sock < length (nodes (network fn))
      \<and> out_index sock < length (outputs (node_of fn (out_node sock)))
      \<and> outputs (node_of fn (out_node sock)) ! out_index sock = out
      \<and> list_all (\<lambda>t. t < length (input_sockets (network fn)) \<and> origin (input_socket fn t) = out)
           (targets sock)
      \<and> distinct (targets sock))"

text \<open>
  The declared network inputs are distinct output sockets of boundary nodes, the declared
  network outputs are input sockets of boundary nodes.
\<close>

definition wf_network :: "MF_EvaluateNetwork \<Rightarrow> bool" where
  "wf_network fn =
     (list_all (wf_node fn) [0..<length (nodes (network fn))]
      \<and> list_all (wf_input_socket fn) [0..<length (input_sockets (network fn))]
      \<and> list_all (wf_output_socket fn) [0..<length (output_sockets (network fn))]
      \<and> list_all (\<lambda>out. out < length (output_sockets (network fn))
                     \<and> \<not> is_function (node_of fn (out_node (output_socket fn out)))) (m_inputs fn)
      \<and> distinct (m_inputs fn)
      \<and> list_all (\<lambda>i. i < length (input_sockets (network fn))
                   \<and> \<not> is_function (node_of fn (in_node (input_socket fn i)))) (m_outputs fn))"

text \<open>The dependencies between nodes: an edge from the node of an origin to the node it feeds.\<close>

definition node_deps :: "MF_EvaluateNetwork \<Rightarrow> (nat \<times> nat) set" where
  "node_deps fn =
     set (map (\<lambda>sock. (out_node (output_socket fn (origin sock)), in_node sock))
            (input_sockets (network fn)))"

text \<open>
  The caller's side of the contract: one parameter per declared input, then one per
  declared output, each of the category of its socket and covering the mask's index range.
\<close>

definition input_param_ok :: "MFDataType \<Rightarrow> nat \<Rightarrow> MFParam \<Rightarrow> bool" where
  "input_param_ok cat n p =
     (case p of
        ReadonlySingleArg xs \<Rightarrow> cat = Single \<and> n \<le> length xs
      | ReadonlyVectorArg xs \<Rightarrow> cat = Vector \<and> n \<le> length xs
      | _ \<Rightarrow> False)"

definition output_param_ok :: "MFDataType \<Rightarrow> nat \<Rightarrow> MFParam \<Rightarrow> bool" where
  "output_param_ok cat n p =
     (case p of
        SingleOutputArg xs \<Rightarrow> cat = Single \<and> n \<le> length xs
      | VectorOutputArg xs \<Rightarrow> cat = Vector \<and> n \<le> length xs
      | _ \<Rightarrow> False)"

definition params_ok :: "MF_EvaluateNetwork \<Rightarrow> MFMask \<Rightarrow> MFParams \<Rightarrow> bool" where
  "params_ok fn msk params =
     (length params = length (m_inputs fn) + length (m_outputs fn)
      \<and> list_all (\<lambda>i. input_param_ok (out_category (output_socket fn (m_inputs fn ! i)))
                     (min_array_size msk) (params ! i)) [0..<length (m_inputs fn)]
      \<and> list_all (\<lambda>k. output_param_ok (in_category (input_socket fn (m_outputs fn ! k)))
                     (min_array_size msk) (params ! (length (m_inputs fn) + k)))
           [0..<length (m_outputs fn)])"

section \<open>Example networks\<close>

text \<open>Leaf functions: they write the rows the mask names and no other.\<close>

definition map_single_call :: "(int \<Rightarrow> int) \<Rightarrow> MFMask \<Rightarrow> MFParams \<Rightarrow> MFParams" where
  "map_single_call g msk params =
     (case params of
        [ReadonlySingleArg xs, SingleOutputArg ys] \<Rightarrow>
          [ReadonlySingleArg xs,
           SingleOutputArg (fold (\<lambda>i zs. zs[i := map_option g (xs ! i)]) msk ys)]
      | _ \<Rightarrow> params)"

definition add_call :: "MFMask \<Rightarrow> MFParams \<Rightarrow> MFParams" where
  "add_call msk params =
     (case params of
        [ReadonlySingleArg xs, ReadonlySingleArg ys, SingleOutputArg zs] \<Rightarrow>
          [ReadonlySingleArg xs, ReadonlySingleArg ys,
           SingleOutputArg
             (fold (\<lambda>i ws. ws[i := (case (xs ! i, ys ! i) of
                                       (Some x, Some y) \<Rightarrow> Some (x + y) | _ \<Rightarrow> None)]) msk zs)]
      | _ \<Rightarrow> params)"

definition append_zero_call :: "MFMask \<Rightarrow> MFParams \<Rightarrow> MFParams" where
  "append_zero_call msk params =
     (case params of
        [MutableVectorArg xss] \<Rightarrow> [MutableVectorArg (fold (\<lambda>i yss. yss[i := yss ! i @ [0]]) msk xss)]
      | _ \<Rightarrow> params)"

definition vector_length_call :: "MFMask \<Rightarrow> MFParams \<Rightarrow> MFParams" where
  "vector_length_call msk params =
     (case params of
        [ReadonlyVectorArg xss, SingleOutputArg ys] \<Rightarrow>
          [ReadonlyVectorArg xss,
           SingleOutputArg (fold (\<lambda>i zs. zs[i := Some (int (length (xss ! i)))]) msk ys)]
      | _ \<Rightarrow> params)"

definition no_function :: MultiFunction where
  "no_function = \<lparr>param_types = [], mf_call = (\<lambda>msk params. params)\<rparr>"

definition boundary_node :: "nat list \<Rightarrow> nat list \<Rightarrow> MFNode" where
  "boundary_node ins outs =
     \<lparr>is_function = False, node_function = no_function, inputs = ins, outputs = outs,
      input_param_indices = [], output_param_indices = []\<rparr>"

definition single_to_single_node :: "(int \<Rightarrow> int) \<Rightarrow> nat \<Rightarrow> nat \<Rightarrow> MFNode" where
  "single_to_single_node g i out =
     \<lparr>is_function = True,
      node_function =
        \<lparr>param_types = [ReadonlySingleInput, SingleOutput], mf_call = map_single_call g\<rparr>,
      inputs = [i], outputs = [out], input_param_indices = [0], output_param_indices = [1]\<rparr>"

definition append_zero_node :: "nat \<Rightarrow> nat \<Rightarrow> MFNode" where
  "append_zero_node i out =
     \<lparr>is_function = True,
      node_function = \<lparr>param_types = [MutableVector], mf_call = append_zero_call\<rparr>,
      inputs = [i], outputs = [out], input_param_indices = [0], output_param_indices = [0]\<rparr>"

definition vector_length_node :: "nat \<Rightarrow> nat \<Rightarrow> MFNode" where
  "vector_length_node i out =
     \<lparr>is_function = True,
      node_function =
        \<lparr>param_types = [ReadonlyVectorInput, SingleOutput], mf_call = vector_length_call\<rparr>,
      inputs = [i], outputs = [out], input_param_indices = [0], output_param_indices = [1]\<rparr>"

text \<open>The network \<open>input \<rightarrow> f \<rightarrow> output\<close> with \<open>f(x) = x + 1\<close>.\<close>

definition add_one_network :: MF_EvaluateNetwork where
  "add_one_network =
     \<lparr>network =
        \<lparr>nodes = [boundary_node [] [0], single_to_single_node (\<lambda>x. x + 1) 0 1, boundary_node [1] []],
         input_sockets =
           [\<lparr>in_node = 1, in_index = 0, in_category = Single, origin = 0\<rparr>,
            \<lparr>in_node = 2, in_index = 0, in_category = Single, origin = 1\<rparr>],
         output_sockets =
           [\<lparr>out_node = 0, out_index = 0, out_category = Single, targets = [0]\<rparr>,
            \<lparr>out_node = 1, out_index = 0, out_category = Single, targets = [1]\<rparr>]\<rparr>,
      m_inputs = [0], m_outputs = [1]\<rparr>"

text \<open>
  The diamond \<open>input \<rightarrow> f \<rightarrow> (g, h) \<rightarrow> k\<close>: node 1 is \<open>f(x) = x + 1\<close>, node 2 is
  \<open>g(x) = 2 * x\<close>, node 3 is \<open>h(x) = x - 3\<close>, node 4 is \<open>k(x, y) = x + y\<close>.
\<close>

definition diamond_network :: MF_EvaluateNetwork where
  "diamond_network =
     \<lparr>network =
        \<lparr>nodes =
           [boundary_node [] [0],
            single_to_single_node (\<lambda>x. x + 1) 0 1,
            single_to_single_node (\<lambda>x. 2 * x) 1 2,
            single_to_single_node (\<lambda>x. x - 3) 2 3,
            \<lparr>is_function = True,
             node_function =
               \<lparr>param_types = [ReadonlySingleInput, ReadonlySingleInput, SingleOutput],
                mf_call = add_call\<rparr>,
             inputs = [3, 4], outputs = [4], input_param_indices = [0, 1],
             output_param_indices = [2]\<rparr>,
            boundary_node [5] []],
         input_sockets =
           [\<lparr>in_node = 1, in_index = 0, in_category = Single, origin = 0\<rparr>,
            \<lparr>in_node = 2, in_index = 0, in_category = Single, origin = 1\<rparr>,
            \<lparr>in_node = 3, in_index = 0, in_category = Single, origin = 1\<rparr>,
            \<lparr>in_node = 4, in_index = 0, in_category = Single, origin = 2\<rparr>,
            \<lparr>in_node = 4, in_index = 1, in_category = Single, origin = 3\<rparr>,
            \<lparr>in_node = 5, in_index = 0, in_category = Single, origin = 4\<rparr>],
         output_sockets =
           [\<lparr>out_node = 0, out_index = 0, out_category = Single, targets = [0]\<rparr>,
            \<lparr>out_node = 1, out_index = 0, out_category = Single, targets = [1, 2]\<rparr>,
            \<lparr>out_node = 2, out_index = 0, out_category = Single, targets = [3]\<rparr>,
            \<lparr>out_node = 3, out_index = 0, out_category = Single, targets = [4]\<rparr>,
            \<lparr>out_node = 4, out_index = 0, out_category = Single, targets = [5]\<rparr>]\<rparr>,
      m_inputs = [0], m_outputs = [5]\<rparr>"

text \<open>
  A vector network. The network input (output socket 0) feeds node 1, which appends a zero
  to its mutable vector, and node 2, which reads the lengths. The output of node 1 (output
  socket 1) feeds node 3, which again mutates in place, and the first network output; the
  lengths and the output of node 3 are the second and third network output.
\<close>

definition vector_network :: MF_EvaluateNetwork where
  "vector_network =
     \<lparr>network =
        \<lparr>nodes =
           [boundary_node [] [0],
            append_zero_node 0 1,
            vector_length_node 1 2,
            append_zero_node 2 3,
            boundary_node [3, 4, 5] []],
         input_sockets =
           [\<lparr>in_node = 1, in_index = 0, in_category = Vector, origin = 0\<rparr>,
            \<lparr>in_node = 2, in_index = 0, in_category = Vector, origin = 0\<rparr>,
            \<lparr>in_node = 3, in_index = 0, in_category = Vector, origin = 1\<rparr>,
            \<lparr>in_node = 4, in_index = 0, in_category = Vector, origin = 1\<rparr>,
            \<lparr>in_node = 4, in_index = 1, in_category = Single, origin = 2\<rparr>,
            \<lparr>in_node = 4, in_index = 2, in_category = Vector, origin = 3\<rparr>],
         output_sockets =
           [\<lparr>out_node = 0, out_index = 0, out_category = Vector, targets = [0, 1]\<rparr>,
            \<lparr>out_node = 1, out_index = 0, out_category = Vector, targets = [2, 3]\<rparr>,
            \<lparr>out_node = 2, out_index = 0, out_category = Single, targets = [4]\<rparr>,
            \<lparr>out_node = 3, out_index = 0, out_category = Vector, targets = [5]\<rparr>]\<rparr>,
      m_inputs = [0], m_outputs = [3, 4, 5]\<rparr>"


section \<open>Invariants of an evaluation\<close>

abbreviation values_of :: "eval_state \<Rightarrow> nat \<rightharpoonup> stored" where
  "values_of s \<equiv> m_value_for_inputs (storage s)"

definition with_value :: "nat \<Rightarrow> stored \<Rightarrow> eval_state \<Rightarrow> eval_state" where
  "with_value i v s = s\<lparr>storage := (storage s)\<lparr>m_value_for_inputs := (values_of s)(i \<mapsto> v)\<rparr>\<rparr>"

definition with_copy :: "nat \<Rightarrow> vector_array \<Rightarrow> eval_state \<Rightarrow> eval_state" where
  "with_copy i src s =
     with_value i (VectorArray (length (heap s)))
       (s\<lparr>storage := take_vector_array_ownership (length (heap s)) (storage s),
          heap := heap s @ [VectorBuf src]\<rparr>)"

definition buffer_rows :: "buffer \<Rightarrow> nat" where
  "buffer_rows b = (case b of ArrayBuf xs \<Rightarrow> length xs | VectorBuf xs \<Rightarrow> length xs)"

definition is_array_buffer :: "buffer \<Rightarrow> bool" where
  "is_array_buffer b = (case b of ArrayBuf xs \<Rightarrow> True | VectorBuf xs \<Rightarrow> False)"

definition is_vector_buffer :: "buffer \<Rightarrow> bool" where
  "is_vector_buffer b = (case b of ArrayBuf xs \<Rightarrow> False | VectorBuf xs \<Rightarrow> True)"

text \<open>A view references a buffer that exists, of the category of the view.\<close>

definition single_ref_ok :: "nat \<Rightarrow> MFParams \<Rightarrow> buffer list \<Rightarrow> buffer_ref \<Rightarrow> bool" where
  "single_ref_ok n params h r =
     (case r of
        ParamRef j \<Rightarrow>
          j < length params \<and> (case params ! j of ReadonlySingleArg xs \<Rightarrow> n \<le> length xs | _ \<Rightarrow> False)
      | HeapRef a \<Rightarrow> a < length h \<and> is_array_buffer (h ! a))"

definition vector_ref_ok :: "nat \<Rightarrow> MFParams \<Rightarrow> buffer list \<Rightarrow> buffer_ref \<Rightarrow> bool" where
  "vector_ref_ok n params h r =
     (case r of
        ParamRef j \<Rightarrow>
          j < length params \<and> (case params ! j of ReadonlyVectorArg xs \<Rightarrow> n \<le> length xs | _ \<Rightarrow> False)
      | HeapRef a \<Rightarrow> a < length h \<and> is_vector_buffer (h ! a))"

definition stored_ref_ok :: "nat \<Rightarrow> MFParams \<Rightarrow> buffer list \<Rightarrow> nat list \<Rightarrow> stored \<Rightarrow> bool" where
  "stored_ref_ok n params h regs v =
     (case v of
        VirtualList r \<Rightarrow> single_ref_ok n params h r
      | VirtualListList r \<Rightarrow> vector_ref_ok n params h r
      | VectorArray a \<Rightarrow> a < length h \<and> is_vector_buffer (h ! a) \<and> a \<in> set regs)"

definition is_mutable_input :: "MF_EvaluateNetwork \<Rightarrow> nat \<Rightarrow> bool" where
  "is_mutable_input fn i =
     (is_function (node_of fn (in_node (input_socket fn i)))
      \<and> input_param_type fn i = MutableVector)"

text \<open>The representation stored for an input socket is the one its consumer reads.\<close>

definition stored_fits :: "MF_EvaluateNetwork \<Rightarrow> nat \<Rightarrow> stored \<Rightarrow> bool" where
  "stored_fits fn i v =
     (case v of
        VirtualList r \<Rightarrow> in_kind fn i = Single
      | VirtualListList r \<Rightarrow> in_kind fn i = Vector \<and> \<not> is_mutable_input fn i
      | VectorArray a \<Rightarrow> is_mutable_input fn i)"

definition stored_ok :: "MF_EvaluateNetwork \<Rightarrow> MFMask \<Rightarrow> MFParams \<Rightarrow> eval_state \<Rightarrow> bool" where
  "stored_ok fn msk params s =
     (\<forall>i v. values_of s i = Some v \<longrightarrow>
        stored_fits fn i v
        \<and> stored_ref_ok (min_array_size msk) params (heap s) (m_vector_arrays (storage s)) v)"

definition heap_rows_ok :: "MFMask \<Rightarrow> buffer list \<Rightarrow> bool" where
  "heap_rows_ok msk h = (\<forall>b \<in> set h. min_array_size msk \<le> buffer_rows b)"

text \<open>
  An input socket is sourced when its origin is a declared network input or an output of
  a function node that was invoked; it can be demanded by the scheduler when it is an input
  of a function node or a declared network output.
\<close>

definition sourced :: "MF_EvaluateNetwork \<Rightarrow> eval_state \<Rightarrow> nat \<Rightarrow> bool" where
  "sourced fn s i =
     (origin (input_socket fn i) \<in> set (m_inputs fn)
      \<or> out_node (output_socket fn (origin (input_socket fn i))) \<in> set (invoked s))"

definition demandable :: "MF_EvaluateNetwork \<Rightarrow> nat \<Rightarrow> bool" where
  "demandable fn i =
     (is_function (node_of fn (in_node (input_socket fn i))) \<or> i \<in> set (m_outputs fn))"

definition computed_ok :: "MF_EvaluateNetwork \<Rightarrow> eval_state \<Rightarrow> bool" where
  "computed_ok fn s =
     (\<forall>i. (values_of s i \<noteq> None \<longrightarrow> i < length (input_sockets (network fn)) \<and> sourced fn s i)
        \<and> (i < length (input_sockets (network fn)) \<and> sourced fn s i \<and> demandable fn i
             \<longrightarrow> values_of s i \<noteq> None))"

definition invoked_ok :: "MF_EvaluateNetwork \<Rightarrow> eval_state \<Rightarrow> bool" where
  "invoked_ok fn s =
     (distinct (invoked s)
      \<and> (\<forall>n \<in> set (invoked s). n < length (nodes (network fn)) \<and> is_function (node_of fn n)))"

text \<open>
  The registries hold every buffer of the heap once, single arrays in one and vector
  arrays in the other.
\<close>

definition registry_ok :: "eval_state \<Rightarrow> bool" where
  "registry_ok s =
     (distinct (Storage_release (storage s))
      \<and> set (Storage_release (storage s)) = {..<length (heap s)}
      \<and> (\<forall>a \<in> set (m_arrays (storage s)). is_array_buffer (heap s ! a))
      \<and> (\<forall>a \<in> set (m_vector_arrays (storage s)). is_vector_buffer (heap s ! a)))"

definition state_ok :: "MF_EvaluateNetwork \<Rightarrow> MFMask \<Rightarrow> MFParams \<Rightarrow> eval_state \<Rightarrow> bool" where
  "state_ok fn msk params s =
     (stored_ok fn msk params s \<and> heap_rows_ok msk (heap s) \<and> computed_ok fn s
      \<and> invoked_ok fn s \<and> registry_ok s)"

text \<open>
  The scheduler's stack, relative to a ranking \<open>rk\<close> of the nodes along the dependencies:
  an output socket ranks just above the inputs of its node.
\<close>

definition lvl :: "(nat \<Rightarrow> nat) \<Rightarrow> MF_EvaluateNetwork \<Rightarrow> MFSocket \<Rightarrow> nat" where
  "lvl rk fn e =
     (case e of
        InputSocket i \<Rightarrow> 2 * rk (in_node (input_socket fn i))
      | OutputSocket out \<Rightarrow> 2 * rk (out_node (output_socket fn out)) + 1)"

definition socket_ok :: "MF_EvaluateNetwork \<Rightarrow> eval_state \<Rightarrow> MFSocket \<Rightarrow> bool" where
  "socket_ok fn s e =
     (case e of
        InputSocket i \<Rightarrow> i < length (input_sockets (network fn)) \<and> demandable fn i
      | OutputSocket out \<Rightarrow>
          out < length (output_sockets (network fn))
          \<and> is_function (node_of fn (out_node (output_socket fn out)))
          \<and> out_node (output_socket fn out) \<notin> set (invoked s))"

text \<open>Every socket on the stack ranks below the output sockets underneath it.\<close>

fun ordered :: "(nat \<Rightarrow> nat) \<Rightarrow> MF_EvaluateNetwork \<Rightarrow> MFSocket list \<Rightarrow> bool" where
  "ordered rk fn [] = True"
| "ordered rk fn (e # below) =
     ((\<forall>out. OutputSocket out \<in> set below \<longrightarrow> lvl rk fn e < lvl rk fn (OutputSocket out))
      \<and> ordered rk fn below)"

definition stack_ok ::
    "(nat \<Rightarrow> nat) \<Rightarrow> MF_EvaluateNetwork \<Rightarrow> eval_state \<Rightarrow> MFSocket list \<Rightarrow> bool" where
  "stack_ok rk fn s stack =
     ((\<forall>e \<in> set stack. socket_ok fn s e)
      \<and> ordered rk fn stack
      \<and> (\<forall>i \<in> set (m_outputs fn).
            input_is_computed (storage s) i \<or> InputSocket i \<in> set stack))"

definition cfg_ok ::
    "(nat \<Rightarrow> nat) \<Rightarrow> MF_EvaluateNetwork \<Rightarrow> MFMask \<Rightarrow> MFParams \<Rightarrow> MFSocket list \<times> eval_state \<Rightarrow> bool" where
  "cfg_ok rk fn msk params cfg =
     (state_ok fn msk params (snd cfg) \<and> stack_ok rk fn (snd cfg) (fst cfg))"

definition ranked :: "(nat \<Rightarrow> nat) \<Rightarrow> MF_EvaluateNetwork \<Rightarrow> bool" where
  "ranked rk fn = (\<forall>(a, b) \<in> node_deps fn. rk a < rk b)"

definition active :: "eval_state \<Rightarrow> MFSocket \<Rightarrow> bool" where
  "active s e = (case e of InputSocket i \<Rightarrow> \<not> input_is_computed (storage s) i | OutputSocket out \<Rightarrow> True)"

definition sched_measure ::
    "(nat \<Rightarrow> nat) \<Rightarrow> MF_EvaluateNetwork \<Rightarrow> MFSocket list \<times> eval_state \<Rightarrow> nat \<times> nat \<times> nat" where
  "sched_measure rk fn cfg =
     (card ({..<length (nodes (network fn))} - set (invoked (snd cfg))),
      if fst cfg \<noteq> [] \<and> active (snd cfg) (hd (fst cfg)) then (0, lvl rk fn (hd (fst cfg)))
      else (1, length (fst cfg)))"

definition sched_rel ::
    "(nat \<Rightarrow> nat) \<Rightarrow> MF_EvaluateNetwork
      \<Rightarrow> ((MFSocket list \<times> eval_state) \<times> (MFSocket list \<times> eval_state)) set" where
  "sched_rel rk fn = inv_image (less_than <*lex*> less_than <*lex*> less_than) (sched_measure rk fn)"


section \<open>The vector fan-out\<close>

text \<open>The buffer a consumer observes through the value stored for its socket.\<close>

definition observed_buffer :: "stored \<Rightarrow> buffer_ref" where
  "observed_buffer v =
     (case v of VirtualList r \<Rightarrow> r | VirtualListList r \<Rightarrow> r | VectorArray a \<Rightarrow> HeapRef a)"

text \<open>
  One step of a fan-out of the collection \<open>r\<close> with contents \<open>src\<close>: the consumer's slot
  was empty and now references \<open>r\<close> itself or, for a mutable consumer, a new copy of
  \<open>src\<close>; or the consumer is none the scheduler can demand and nothing changed.
\<close>

definition fan_out_step ::
    "MF_EvaluateNetwork \<Rightarrow> buffer_ref \<Rightarrow> vector_array \<Rightarrow> nat \<Rightarrow> eval_state \<Rightarrow> eval_state \<Rightarrow> bool" where
  "fan_out_step fn r src tg s s' =
     ((values_of s tg = None
        \<and> ((\<not> is_mutable_input fn tg \<and> s' = with_value tg (VirtualListList r) s)
           \<or> (is_mutable_input fn tg \<and> s' = with_copy tg src s)))
      \<or> (\<not> demandable fn tg \<and> s' = s))"

definition consumer_served ::
    "MF_EvaluateNetwork \<Rightarrow> buffer_ref \<Rightarrow> vector_array \<Rightarrow> eval_state \<Rightarrow> eval_state \<Rightarrow> nat \<Rightarrow> bool" where
  "consumer_served fn r src s t tg =
     (if is_mutable_input fn tg then
        (\<exists>c. values_of t tg = Some (VectorArray c) \<and> length (heap s) \<le> c \<and> c < length (heap t)
           \<and> heap t ! c = VectorBuf src)
      else values_of t tg = Some (VirtualListList r))"

definition fan_out_inv ::
    "MF_EvaluateNetwork \<Rightarrow> buffer_ref \<Rightarrow> vector_array \<Rightarrow> eval_state \<Rightarrow> nat list \<Rightarrow> eval_state \<Rightarrow> bool" where
  "fan_out_inv fn r src s pre t =
     ((\<exists>news. heap t = heap s @ news)
      \<and> values_of s \<subseteq>\<^sub>m values_of t
      \<and> (\<forall>tg \<in> set pre. demandable fn tg \<longrightarrow> consumer_served fn r src s t tg)
      \<and> (\<forall>tg1 \<in> set pre. \<forall>tg2 \<in> set pre.
            is_mutable_input fn tg1 \<and> is_mutable_input fn tg2
            \<and> values_of t tg1 = values_of t tg2 \<longrightarrow> tg1 = tg2))"


text \<open>
  A state of a call of \<open>vector_network\<close> with the rows 0 and 1: node 1 has been invoked on
  its private copy (heap address 0), whose forwarding to the consumers of output socket 1
  (the mutable input 2 of node 3 and the network output 3) is about to start.
\<close>

definition fan_out_state :: eval_state where
  "fan_out_state =
     \<lparr>storage =
        \<lparr>m_mask = [0, 1], m_arrays = [], m_vector_arrays = [0],
         m_value_for_inputs = [0 \<mapsto> VectorArray 0, 1 \<mapsto> VirtualListList (ParamRef 0)]\<rparr>,
      heap = [VectorBuf [[1, 0], [2, 3, 0]]],
      invoked = [1]\<rparr>"


section \<open>Invariants of the parameter loop\<close>

text \<open>The output socket a writable parameter is forwarded through.\<close>

definition fwd_socket :: "MFNode \<Rightarrow> nat \<Rightarrow> nat" where
  "fwd_socket nd p = outputs nd ! the (first_index_opt (output_param_indices nd) p)"

text \<open>
  After the parameters \<open>pre\<close>: the heap grew by buffers of \<open>n\<close> rows, every new buffer
  is behind an output to forward, the single outputs have distinct new arrays, the vector
  outputs have vector arrays that are new or registered, and the outputs to forward are
  those of the writable parameters among \<open>pre\<close>, in order.
\<close>

definition builder_inv ::
    "MFNode \<Rightarrow> buffer list \<Rightarrow> nat list \<Rightarrow> nat \<Rightarrow> nat list \<Rightarrow> params_builder \<Rightarrow> bool" where
  "builder_inv nd h0 regs n pre b =
     ((\<exists>news. builder_heap b = h0 @ news \<and> (\<forall>x \<in> set news. buffer_rows x = n))
      \<and> (\<forall>a \<in> snd ` set (single_outputs_to_forward b).
            length h0 \<le> a \<and> a < length (builder_heap b) \<and> is_array_buffer (builder_heap b ! a))
      \<and> distinct (map snd (single_outputs_to_forward b))
      \<and> (\<forall>a \<in> snd ` set (vector_outputs_to_forward b).
            a < length (builder_heap b) \<and> is_vector_buffer (builder_heap b ! a)
            \<and> (a < length h0 \<longrightarrow> a \<in> set regs))
      \<and> {length h0..<length (builder_heap b)}
           \<subseteq> snd ` set (single_outputs_to_forward b) \<union> snd ` set (vector_outputs_to_forward b)
      \<and> map fst (single_outputs_to_forward b)
           = map (fwd_socket nd)
               (filter (\<lambda>p. param_types (node_function nd) ! p = SingleOutput) pre)
      \<and> map fst (vector_outputs_to_forward b)
           = map (fwd_socket nd)
               (filter (\<lambda>p. param_types (node_function nd) ! p = VectorOutput
                          \<or> param_types (node_function nd) ! p = MutableVector) pre))"

text \<open>A function node the scheduler may invoke: it is valid and all its inputs are computed.\<close>

definition node_ready :: "MF_EvaluateNetwork \<Rightarrow> eval_state \<Rightarrow> nat \<Rightarrow> bool" where
  "node_ready fn s n =
     (n < length (nodes (network fn)) \<and> is_function (node_of fn n)
      \<and> (\<forall>i \<in> set (inputs (node_of fn n)). values_of s i \<noteq> None))"


section \<open>Invariants of the forwarding loops\<close>

text \<open>Two heaps of the same shape: buffer for buffer the same category and number of rows.\<close>

definition same_shape :: "buffer list \<Rightarrow> buffer list \<Rightarrow> bool" where
  "same_shape h h' =
     (length h' = length h
      \<and> (\<forall>a < length h. is_array_buffer (h' ! a) = is_array_buffer (h ! a)
                        \<and> buffer_rows (h' ! a) = buffer_rows (h ! a)))"

text \<open>
  While values are forwarded from state \<open>s\<close>, the invoked nodes being \<open>iv\<close>: the values
  stored so far are those of \<open>s\<close> and values for targets in \<open>D\<close>, the targets served so
  far.
\<close>

definition fwd_vals ::
    "MF_EvaluateNetwork \<Rightarrow> MFMask \<Rightarrow> MFParams \<Rightarrow> eval_state \<Rightarrow> nat list \<Rightarrow> nat set \<Rightarrow> eval_state \<Rightarrow> bool" where
  "fwd_vals fn msk params s iv D t =
     (invoked t = iv
      \<and> stored_ok fn msk params t
      \<and> heap_rows_ok msk (heap t)
      \<and> values_of s \<subseteq>\<^sub>m values_of t
      \<and> dom (values_of t) \<subseteq> dom (values_of s) \<union> D
      \<and> (\<forall>tg \<in> D. demandable fn tg \<longrightarrow> values_of t tg \<noteq> None))"

text \<open>
  The registries while outputs are forwarded: together with the buffers of the outputs
  still to forward they hold every buffer of the heap, the single ones once.
\<close>

definition fwd_reg :: "(nat \<times> nat) list \<Rightarrow> (nat \<times> nat) list \<Rightarrow> eval_state \<Rightarrow> bool" where
  "fwd_reg sof vof t =
     (distinct (Storage_release (storage t))
      \<and> set (Storage_release (storage t)) \<union> snd ` set sof \<union> snd ` set vof = {..<length (heap t)}
      \<and> set (Storage_release (storage t)) \<inter> snd ` set sof = {}
      \<and> distinct (map snd sof)
      \<and> (\<forall>a \<in> set (m_arrays (storage t)). is_array_buffer (heap t ! a))
      \<and> (\<forall>a \<in> set (m_vector_arrays (storage t)). is_vector_buffer (heap t ! a))
      \<and> (\<forall>a \<in> snd ` set sof. is_array_buffer (heap t ! a))
      \<and> (\<forall>a \<in> snd ` set vof. is_vector_buffer (heap t ! a)))"


text \<open>What well-formedness says about a consumer of a vector.\<close>

definition vector_consumer_ok :: "MF_EvaluateNetwork \<Rightarrow> nat \<Rightarrow> bool" where
  "vector_consumer_ok fn tg =
     (in_kind fn tg = Vector
      \<and> (is_function (node_of fn (in_node (input_socket fn tg))) \<longrightarrow>
        in_index (input_socket fn tg) < length (input_param_indices (node_of fn (in_node (input_socket fn tg))))
        \<and> input_param_indices (node_of fn (in_node (input_socket fn tg))) ! in_index (input_socket fn tg)
            < length (param_types (node_function (node_of fn (in_node (input_socket fn tg)))))
        \<and> (input_param_type fn tg = ReadonlyVectorInput \<or> input_param_type fn tg = MutableVector)))"

text \<open>The targets of a list of output sockets.\<close>

definition tgs :: "MF_EvaluateNetwork \<Rightarrow> nat list \<Rightarrow> nat set" where
  "tgs fn outs = (\<Union>out \<in> set outs. set (targets (output_socket fn out)))"

text \<open>
  An output socket whose targets can be served from state \<open>s\<close>: they are distinct, have the
  socket as their origin and no value yet, and are consumers of the socket's category.
\<close>

definition single_targets_ok :: "MF_EvaluateNetwork \<Rightarrow> eval_state \<Rightarrow> nat \<Rightarrow> bool" where
  "single_targets_ok fn s out =
     (distinct (targets (output_socket fn out))
      \<and> (\<forall>tg \<in> set (targets (output_socket fn out)).
            origin (input_socket fn tg) = out \<and> values_of s tg = None \<and> in_kind fn tg = Single))"

definition vector_targets_ok :: "MF_EvaluateNetwork \<Rightarrow> eval_state \<Rightarrow> nat \<Rightarrow> bool" where
  "vector_targets_ok fn s out =
     (distinct (targets (output_socket fn out))
      \<and> (\<forall>tg \<in> set (targets (output_socket fn out)).
            origin (input_socket fn tg) = out \<and> values_of s tg = None \<and> vector_consumer_ok fn tg))"

section \<open>The outcome of the output copy\<close>

text \<open>
  What the copy loops of lines 231--233 and 239--241 leave in a destination \<open>dst\<close>, given
  the computed values \<open>xs\<close>: at an index of the mask the element is replaced (Single) or
  the collection extended (Vector), every other index is as it was.
\<close>

definition written_single :: "MFMask \<Rightarrow> single_array \<Rightarrow> single_array \<Rightarrow> single_array \<Rightarrow> bool" where
  "written_single msk xs dst dst' =
     (length dst' = length dst
      \<and> list_all (\<lambda>i. dst' ! i = (if i \<in> set msk then xs ! i else dst ! i)) [0..<length dst])"

definition written_vector :: "MFMask \<Rightarrow> vector_array \<Rightarrow> vector_array \<Rightarrow> vector_array \<Rightarrow> bool" where
  "written_vector msk xs dst dst' =
     (length dst' = length dst
      \<and> list_all (\<lambda>i. dst' ! i = (if i \<in> set msk then dst ! i @ xs ! i else dst ! i))
           [0..<length dst])"

text \<open>
  The parameter \<open>q\<close> is the destination of the declared output \<open>k\<close> after the copy: the
  caller's destination, written from the view stored for the output's socket.
\<close>

definition materialized ::
    "MF_EvaluateNetwork \<Rightarrow> MFMask \<Rightarrow> MFParams \<Rightarrow> eval_state \<Rightarrow> nat \<Rightarrow> MFParam \<Rightarrow> bool" where
  "materialized fn msk params s k q =
     (case in_category (input_socket fn (m_outputs fn ! k)) of
        Single \<Rightarrow>
          (case (values_of s (m_outputs fn ! k), params ! (length (m_inputs fn) + k), q) of
             (Some (VirtualList r), SingleOutputArg dst, SingleOutputArg dst') \<Rightarrow>
               (case single_values params (heap s) r of
                  Inr xs \<Rightarrow> written_single msk xs dst dst'
                | Inl e \<Rightarrow> False)
           | _ \<Rightarrow> False)
      | Vector \<Rightarrow>
          (case (values_of s (m_outputs fn ! k), params ! (length (m_inputs fn) + k), q) of
             (Some (VirtualListList r), VectorOutputArg dst, VectorOutputArg dst') \<Rightarrow>
               (case vector_values params (heap s) r of
                  Inr xs \<Rightarrow> written_vector msk xs dst dst'
                | Inl e \<Rightarrow> False)
           | _ \<Rightarrow> False))"

section \<open>The outcome of the input binding\<close>

text \<open>
  The input socket \<open>tg\<close> is bound to the caller's parameter \<open>i\<close> in state \<open>t\<close>: the value
  stored for it is a view of that parameter or, for a mutable consumer, a vector array of
  the heap that holds the parameter's collections.
\<close>

definition input_bound :: "MFParams \<Rightarrow> nat \<Rightarrow> eval_state \<Rightarrow> nat \<Rightarrow> bool" where
  "input_bound params i t tg =
     (case values_of t tg of
        None \<Rightarrow> False
      | Some (VirtualList r) \<Rightarrow> r = ParamRef i
      | Some (VirtualListList r) \<Rightarrow> r = ParamRef i
      | Some (VectorArray c) \<Rightarrow>
          c < length (heap t)
          \<and> (case params ! i of ReadonlyVectorArg src \<Rightarrow> heap t ! c = VectorBuf src | _ \<Rightarrow> False))"

section \<open>Networks that are not well-formed\<close>

text \<open>
  A Single network input wired to the network output and to the read-only vector parameter
  of node 1, whose output nobody consumes.
\<close>

definition mismatched_network :: MF_EvaluateNetwork where
  "mismatched_network =
     \<lparr>network =
        \<lparr>nodes = [boundary_node [] [0], vector_length_node 1 1, boundary_node [0] []],
         input_sockets =
           [\<lparr>in_node = 2, in_index = 0, in_category = Single, origin = 0\<rparr>,
            \<lparr>in_node = 1, in_index = 0, in_category = Vector, origin = 0\<rparr>],
         output_sockets =
           [\<lparr>out_node = 0, out_index = 0, out_category = Single, targets = [0, 1]\<rparr>,
            \<lparr>out_node = 1, out_index = 0, out_category = Single, targets = []\<rparr>]\<rparr>,
      m_inputs = [0], m_outputs = [0]\<rparr>"

text \<open>A Vector network input wired to the read-only single parameter of node 1.\<close>

definition unsupported_consumer_network :: MF_EvaluateNetwork where
  "unsupported_consumer_network =
     \<lparr>network =
        \<lparr>nodes = [boundary_node [] [0], single_to_single_node (\<lambda>x. x + 1) 0 1, boundary_node [1] []],
         input_sockets =
           [\<lparr>in_node = 1, in_index = 0, in_category = Single, origin = 0\<rparr>,
            \<lparr>in_node = 2, in_index = 0, in_category = Single, origin = 1\<rparr>],
         output_sockets =
           [\<lparr>out_node = 0, out_index = 0, out_category = Vector, targets = [0]\<rparr>,
            \<lparr>out_node = 1, out_index = 0, out_category = Single, targets = [1]\<rparr>]\<rparr>,
      m_inputs = [0], m_outputs = [1]\<rparr>"

lemma and_then_Inr [simp]: "and_then (Inr x) f = f x"
  by (simp add: and_then_def)

lemma and_then_Inl [simp]: "and_then (Inl e) f = Inl e"
  by (simp add: and_then_def)

lemma and_then_eq_Inr: "and_then m f = Inr y \<longleftrightarrow> (\<exists>x. m = Inr x \<and> f x = Inr y)"
  by (cases m) simp_all

lemma and_then_eq_Inl: "and_then m f = Inl e \<longleftrightarrow> (m = Inl e \<or> (\<exists>x. m = Inr x \<and> f x = Inl e))"
  by (cases m) simp_all

lemma for_each_append:
  "for_each body (xs @ ys) s = and_then (for_each body xs s) (for_each body ys)"
  by (induction xs arbitrary: s) (auto split: sum.splits)

lemma for_each_single: "for_each body [x] s = body x s"
  by (cases "body x s") simp_all

lemma for_each_snoc:
  "for_each body (xs @ [x]) s = and_then (for_each body xs s) (body x)"
  by (cases "for_each body xs s") (auto simp: for_each_append split: sum.splits)

lemma for_each_rule:
  assumes "I [] s"
    and "\<And>pre x post t. xs = pre @ x # post \<Longrightarrow> I pre t \<Longrightarrow> \<exists>t'. body x t = Inr t' \<and> I (pre @ [x]) t'"
  shows "\<exists>s'. for_each body xs s = Inr s' \<and> I xs s'"
  using assms
proof (induction xs arbitrary: I s)
  case Nil
  then show ?case by simp
next
  case (Cons x xs)
  from Cons.prems(2)[of "[]" x xs s] Cons.prems(1)
  obtain t' where t': "body x s = Inr t'" "I [x] t'" by auto
  have "\<exists>s'. for_each body xs t' = Inr s' \<and> (\<lambda>pre. I (x # pre)) xs s'"
  proof (rule Cons.IH)
    show "I [x] t'" by fact
  next
    fix pre y post t
    assume "xs = pre @ y # post" "I (x # pre) t"
    then show "\<exists>t'. body y t = Inr t' \<and> I (x # pre @ [y]) t'"
      using Cons.prems(2)[of "x # pre" y post t] by simp
  qed
  with t' show ?case by simp
qed

lemma for_each_invariant:
  assumes "for_each body xs s = Inr s'" "P s"
    and "\<And>x t t'. x \<in> set xs \<Longrightarrow> P t \<Longrightarrow> body x t = Inr t' \<Longrightarrow> P t'"
  shows "P s'"
  using assms
proof (induction xs arbitrary: s)
  case Nil
  then show ?case by simp
next
  case (Cons x xs)
  from Cons.prems(1) obtain t where t: "body x s = Inr t" "for_each body xs t = Inr s'"
    by (auto split: sum.splits)
  have "P t" using Cons.prems(3)[of x s t] Cons.prems(2) t by simp
  show ?case
  proof (rule Cons.IH[OF t(2) \<open>P t\<close>])
    fix y u u' assume "y \<in> set xs" "P u" "body y u = Inr u'"
    then show "P u'" using Cons.prems(3)[of y u u'] by simp
  qed
qed

lemma for_each_fault:
  assumes "for_each body pre s = Inr t" "body x t = Inl e"
  shows "for_each body (pre @ x # post) s = Inl e"
  using assms by (simp add: for_each_append)

lemma copy_prefix:
  "k \<le> length src \<Longrightarrow>
   for_each (\<lambda>i. extend_single__copy i (src ! i)) [0..<k] (GenericVectorArray_new (length src))
     = Inr (take k src @ replicate (length src - k) [])"
proof (induction k)
  case 0
  then show ?case by (simp add: GenericVectorArray_new_def)
next
  case (Suc k)
  then have k: "k < length src" by simp
  have "(take k src @ replicate (length src - k) [])[k := (take k src @ replicate (length src - k) []) ! k @ src ! k]
        = take (Suc k) src @ replicate (length src - Suc k) []"
  proof -
    have "length src - k = Suc (length src - Suc k)" using k by simp
    then show ?thesis
      using k by (simp add: list_update_append nth_append take_Suc_conv_app_nth)
  qed
  with Suc k show ?case
    by (simp add: for_each_snoc extend_single__copy_def)
qed

lemma copy_vector_array_eq: "copy_vector_array src = Inr src"
  using copy_prefix[of "length src" src] by (simp add: copy_vector_array_def)

lemma push_not_computed_inputs_eq:
  "n + length (filter (\<lambda>i. \<not> input_is_computed st i) is) < 2 ^ 32 \<Longrightarrow>
   push_not_computed_inputs st is (n, stack) =
     (n + length (filter (\<lambda>i. \<not> input_is_computed st i) is),
      rev (map InputSocket (filter (\<lambda>i. \<not> input_is_computed st i) is)) @ stack)"
proof (induction "is" arbitrary: n stack)
  case Nil
  then show ?case by simp
next
  case (Cons i "is")
  show ?case
  proof (cases "input_is_computed st i")
    case True
    with Cons show ?thesis by simp
  next
    case False
    with Cons.prems have lt: "Suc n + length (filter (\<lambda>i. \<not> input_is_computed st i) is) < 2 ^ 32"
      by simp
    then have "Suc n < 2 ^ 32" by linarith
    then have m: "(n + 1) mod 2 ^ 32 = Suc n" by simp
    have "push_not_computed_inputs st (i # is) (n, stack) =
          push_not_computed_inputs st is ((n + 1) mod 2 ^ 32, InputSocket i # stack)"
      using False by simp
    also have "\<dots> = push_not_computed_inputs st is (Suc n, InputSocket i # stack)"
      by (simp only: m)
    finally show ?thesis using False Cons.IH[OF lt] by simp
  qed
qed

lemma push_not_computed_inputs_from_zero:
  assumes "length is < 2 ^ 32"
  shows "push_not_computed_inputs st is (0, stack) =
     (length (filter (\<lambda>i. \<not> input_is_computed st i) is),
      rev (map InputSocket (filter (\<lambda>i. \<not> input_is_computed st i) is)) @ stack)"
proof -
  have "length (filter (\<lambda>i. \<not> input_is_computed st i) is) \<le> length is" by simp
  with assms have "0 + length (filter (\<lambda>i. \<not> input_is_computed st i) is) < 2 ^ 32"
    by linarith
  from push_not_computed_inputs_eq[OF this] show ?thesis by simp
qed

lemma scheduler_step_input:
  "scheduler_step fn msk params (InputSocket i # rest, s) =
     (if input_is_computed (storage s) i then Inr (rest, s)
      else Inr (OutputSocket (origin (input_socket fn i)) # InputSocket i # rest, s))"
  by (simp add: scheduler_step_def)

lemma scheduler_step_output:
  assumes "is_function (node_of fn (out_node (output_socket fn out)))"
    and "length (inputs (node_of fn (out_node (output_socket fn out)))) < 2 ^ 32"
  shows "scheduler_step fn msk params (OutputSocket out # rest, s) =
     (let n = out_node (output_socket fn out);
          missing = filter (\<lambda>i. \<not> input_is_computed (storage s) i) (inputs (node_of fn n)) in
      if missing = [] then
        and_then (compute_and_forward_outputs fn msk params n s) (\<lambda>s'. Inr (rest, s'))
      else Inr (rev (map InputSocket missing) @ OutputSocket out # rest, s))"
  using assms
  by (simp add: scheduler_step_def push_not_computed_inputs_from_zero Let_def)

lemma compute_and_forward_outputs_invoked_aux1:
  "for_each (\<lambda>target. in_storage (f target)) ts s = Inr s' \<Longrightarrow> invoked s' = invoked s \<and> heap s' = heap s"
  by (erule for_each_invariant[where P="\<lambda>t. invoked t = invoked s \<and> heap t = heap s"])
     (auto simp: in_storage_def and_then_eq_Inr)

lemma values_of_with_value [simp]: "values_of (with_value i v s) = (values_of s)(i \<mapsto> v)"
  and heap_with_value [simp]: "heap (with_value i v s) = heap s"
  and invoked_with_value [simp]: "invoked (with_value i v s) = invoked s"
  and m_arrays_with_value [simp]: "m_arrays (storage (with_value i v s)) = m_arrays (storage s)"
  and m_vector_arrays_with_value [simp]:
    "m_vector_arrays (storage (with_value i v s)) = m_vector_arrays (storage s)"
  by (simp_all add: with_value_def)

lemma values_of_with_copy [simp]:
    "values_of (with_copy i src s) = (values_of s)(i \<mapsto> VectorArray (length (heap s)))"
  and heap_with_copy [simp]: "heap (with_copy i src s) = heap s @ [VectorBuf src]"
  and invoked_with_copy [simp]: "invoked (with_copy i src s) = invoked s"
  and m_arrays_with_copy [simp]: "m_arrays (storage (with_copy i src s)) = m_arrays (storage s)"
  and m_vector_arrays_with_copy [simp]:
    "m_vector_arrays (storage (with_copy i src s)) = m_vector_arrays (storage s) @ [length (heap s)]"
  by (simp_all add: with_copy_def take_vector_array_ownership_def)

lemma set_value_for_input_Inr:
  "set_value_for_input i v st = Inr st' \<longleftrightarrow>
     m_value_for_inputs st i = None \<and> st' = st\<lparr>m_value_for_inputs := (m_value_for_inputs st)(i \<mapsto> v)\<rparr>"
  by (auto simp: set_value_for_input_def)

lemma in_storage_set_Inr:
  "in_storage (set_value_for_input i v) s = Inr s' \<longleftrightarrow> values_of s i = None \<and> s' = with_value i v s"
  by (auto simp: in_storage_def and_then_eq_Inr set_value_for_input_Inr with_value_def)

lemma in_storage_set_virtual_list_Inr:
  "in_storage (set_virtual_list_for_input__non_owning i r) s = Inr s' \<longleftrightarrow>
     values_of s i = None \<and> s' = with_value i (VirtualList r) s"
  using in_storage_set_Inr[of i "VirtualList r" s s']
  by (simp add: in_storage_def set_virtual_list_for_input__non_owning_def)

lemma in_storage_set_virtual_list_list_Inr:
  "in_storage (set_virtual_list_list_for_input__non_owning i r) s = Inr s' \<longleftrightarrow>
     values_of s i = None \<and> s' = with_value i (VirtualListList r) s"
  using in_storage_set_Inr[of i "VirtualListList r" s s']
  by (simp add: in_storage_def set_virtual_list_list_for_input__non_owning_def)

lemma nth_checked_Inr: "nth_checked xs i = Inr x \<longleftrightarrow> i < length xs \<and> x = xs ! i"
  by (auto simp: nth_checked_def)

lemma param_type_Inr: "param_type f p = Inr pt \<longleftrightarrow> p < length (param_types f) \<and> pt = param_types f ! p"
  by (auto simp: param_type_def nth_checked_def)

lemma vector_values_heap_Inr:
  "vector_values params h (HeapRef a) = Inr src \<longleftrightarrow> a < length h \<and> h ! a = VectorBuf src"
  by (auto simp: vector_values_def split: buffer.splits)

lemma single_values_heap_Inr:
  "single_values params h (HeapRef a) = Inr src \<longleftrightarrow> a < length h \<and> h ! a = ArrayBuf src"
  by (auto simp: single_values_def split: buffer.splits)

lemma vector_values_param_Inr:
  "vector_values params h (ParamRef j) = Inr src \<longleftrightarrow> j < length params \<and> params ! j = ReadonlyVectorArg src"
  by (auto simp: vector_values_def split: MFParam.splits)

lemma single_values_param_Inr:
  "single_values params h (ParamRef j) = Inr src \<longleftrightarrow> j < length params \<and> params ! j = ReadonlySingleArg src"
  by (auto simp: single_values_def split: MFParam.splits)

lemma forward_vector_target_cases:
  assumes "forward_vector_target fn a tg s = Inr s'"
  obtains
    (readonly) "is_function (node_of fn (in_node (input_socket fn tg)))"
      "input_param_type fn tg = ReadonlyVectorInput" "values_of s tg = None"
      "s' = with_value tg (VirtualListList (HeapRef a)) s"
  | (mutable) src where "is_function (node_of fn (in_node (input_socket fn tg)))"
      "input_param_type fn tg = MutableVector" "values_of s tg = None"
      "a < length (heap s)" "heap s ! a = VectorBuf src" "s' = with_copy tg src s"
  | (boundary) "\<not> is_function (node_of fn (in_node (input_socket fn tg)))"
      "tg \<in> set (m_outputs fn)" "values_of s tg = None"
      "s' = with_value tg (VirtualListList (HeapRef a)) s"
  | (skipped) "\<not> is_function (node_of fn (in_node (input_socket fn tg)))"
      "tg \<notin> set (m_outputs fn)" "s' = s"
proof (cases "is_function (node_of fn (in_node (input_socket fn tg)))")
  case False
  with assms show ?thesis
    by (cases "tg \<in> set (m_outputs fn)")
       (auto simp: forward_vector_target_def in_storage_set_virtual_list_list_Inr
             intro: boundary skipped)
next
  case True
  with assms obtain p pt where
    p: "nth_checked (input_param_indices (node_of fn (in_node (input_socket fn tg))))
          (in_index (input_socket fn tg)) = Inr p"
    and pt: "param_type (node_function (node_of fn (in_node (input_socket fn tg)))) p = Inr pt"
    and rest: "(if pt = ReadonlyVectorInput then
            in_storage (set_virtual_list_list_for_input__non_owning tg (HeapRef a)) s
          else if pt = MutableVector then
            and_then (vector_values [] (heap s) (HeapRef a))
            (\<lambda>src.
            and_then (copy_vector_array src)
            (\<lambda>copied.
            let (copied_values, h) = heap_new (VectorBuf copied) (heap s) in
            and_then
              (set_vector_array_for_input__non_owning tg copied_values
                 (take_vector_array_ownership copied_values (storage s)))
              (\<lambda>st. Inr (s\<lparr>storage := st, heap := h\<rparr>))))
          else Inl AssertFalse) = Inr s'"
    by (auto simp: forward_vector_target_def and_then_eq_Inr Let_def)
  from p pt have ipt: "input_param_type fn tg = pt"
    by (simp add: input_param_type_def nth_checked_Inr param_type_Inr)
  show ?thesis
  proof (cases "pt = ReadonlyVectorInput")
    case True
    with rest ipt \<open>is_function _\<close> show ?thesis
      by (auto simp: in_storage_set_virtual_list_list_Inr intro: readonly)
  next
    case False
    with rest have m: "pt = MutableVector" by (auto split: if_splits)
    with rest False obtain src where
      src: "a < length (heap s)" "heap s ! a = VectorBuf src"
      and st: "set_vector_array_for_input__non_owning tg (length (heap s))
                 (take_vector_array_ownership (length (heap s)) (storage s)) = Inr (storage s')"
              "s' = s\<lparr>storage := storage s', heap := heap s @ [VectorBuf src]\<rparr>"
      by (auto simp: and_then_eq_Inr vector_values_heap_Inr copy_vector_array_eq heap_new_def)
    from st have "values_of s tg = None" "s' = with_copy tg src s"
      by (auto simp: set_vector_array_for_input__non_owning_def set_value_for_input_Inr
          take_vector_array_ownership_def with_copy_def with_value_def)
    with src m ipt \<open>is_function _\<close> show ?thesis by (auto intro: mutable)
  qed
qed

lemma bind_vector_input_target_cases:
  assumes "bind_vector_input_target fn params r tg s = Inr s'"
  obtains
    (readonly) "is_function (node_of fn (in_node (input_socket fn tg)))"
      "input_param_type fn tg = ReadonlyVectorInput" "values_of s tg = None"
      "s' = with_value tg (VirtualListList r) s"
  | (mutable) src where "is_function (node_of fn (in_node (input_socket fn tg)))"
      "input_param_type fn tg = MutableVector" "values_of s tg = None"
      "vector_values params (heap s) r = Inr src" "s' = with_copy tg src s"
  | (boundary) "\<not> is_function (node_of fn (in_node (input_socket fn tg)))"
      "values_of s tg = None" "s' = with_value tg (VirtualListList r) s"
proof (cases "is_function (node_of fn (in_node (input_socket fn tg)))")
  case False
  with assms show ?thesis
    by (auto simp: bind_vector_input_target_def in_storage_set_virtual_list_list_Inr
          intro: boundary)
next
  case True
  with assms obtain p pt where
    p: "nth_checked (input_param_indices (node_of fn (in_node (input_socket fn tg))))
          (in_index (input_socket fn tg)) = Inr p"
    and pt: "param_type (node_function (node_of fn (in_node (input_socket fn tg)))) p = Inr pt"
    and rest: "(if pt = ReadonlyVectorInput then
            in_storage (set_virtual_list_list_for_input__non_owning tg r) s
          else if pt = MutableVector then
            and_then (vector_values params (heap s) r)
            (\<lambda>src.
            and_then (copy_vector_array src)
            (\<lambda>copied.
            let (vector_array, h) = heap_new (VectorBuf copied) (heap s) in
            and_then (set_vector_array_for_input__non_owning tg vector_array (storage s))
            (\<lambda>st. Inr (s\<lparr>storage := take_vector_array_ownership vector_array st, heap := h\<rparr>))))
          else Inl AssertFalse) = Inr s'"
    by (auto simp: bind_vector_input_target_def and_then_eq_Inr Let_def)
  from p pt have ipt: "input_param_type fn tg = pt"
    by (simp add: input_param_type_def nth_checked_Inr param_type_Inr)
  show ?thesis
  proof (cases "pt = ReadonlyVectorInput")
    case True
    with rest ipt \<open>is_function _\<close> show ?thesis
      by (auto simp: in_storage_set_virtual_list_list_Inr intro: readonly)
  next
    case False
    with rest have m: "pt = MutableVector" by (auto split: if_splits)
    with rest False obtain src st where
      src: "vector_values params (heap s) r = Inr src"
      and st: "set_vector_array_for_input__non_owning tg (length (heap s)) (storage s) = Inr st"
              "s' = s\<lparr>storage := take_vector_array_ownership (length (heap s)) st,
                      heap := heap s @ [VectorBuf src]\<rparr>"
      by (auto simp: and_then_eq_Inr copy_vector_array_eq heap_new_def)
    from st have "values_of s tg = None" "s' = with_copy tg src s"
      by (auto simp: set_vector_array_for_input__non_owning_def set_value_for_input_Inr
          take_vector_array_ownership_def with_copy_def with_value_def)
    with src m ipt \<open>is_function _\<close> show ?thesis by (auto intro: mutable)
  qed
qed


lemma for_each_prefix_invariant:
  assumes "for_each body xs s = Inr s'" "I [] s"
    and "\<And>pre x post t t'. xs = pre @ x # post \<Longrightarrow> I pre t \<Longrightarrow> body x t = Inr t' \<Longrightarrow> I (pre @ [x]) t'"
  shows "I xs s'"
  using assms
proof (induction xs arbitrary: I s)
  case Nil
  then show ?case by simp
next
  case (Cons x xs)
  from Cons.prems(1) obtain t where t: "body x s = Inr t" "for_each body xs t = Inr s'"
    by (auto split: sum.splits)
  have "I [x] t" using Cons.prems(3)[of "[]" x xs s t] Cons.prems(2) t by simp
  have "(\<lambda>pre. I (x # pre)) xs s'"
  proof (rule Cons.IH[OF t(2)])
    show "I [x] t" by fact
  next
    fix pre y post u u'
    assume "xs = pre @ y # post" "I (x # pre) u" "body y u = Inr u'"
    then show "I (x # pre @ [y]) u'"
      using Cons.prems(3)[of "x # pre" y post u u'] by simp
  qed
  then show ?case .
qed

lemma forward_vector_target_fan_out_step:
  assumes "forward_vector_target fn a tg t = Inr t'"
    and "a < length h0" "h0 ! a = VectorBuf src" "heap t = h0 @ news"
  shows "fan_out_step fn (HeapRef a) src tg t t'"
  using assms(1)
proof (cases rule: forward_vector_target_cases)
  case readonly
  then show ?thesis by (simp add: fan_out_step_def is_mutable_input_def)
next
  case (mutable src')
  with assms(2-4) have "src' = src" by (simp add: nth_append)
  with mutable show ?thesis by (simp add: fan_out_step_def is_mutable_input_def)
next
  case boundary
  then show ?thesis by (simp add: fan_out_step_def is_mutable_input_def)
next
  case skipped
  then show ?thesis by (simp add: fan_out_step_def demandable_def)
qed

lemma bind_vector_input_target_fan_out_step:
  assumes "bind_vector_input_target fn params (ParamRef j) tg t = Inr t'"
    and "params ! j = ReadonlyVectorArg src"
  shows "fan_out_step fn (ParamRef j) src tg t t'"
  using assms(1)
proof (cases rule: bind_vector_input_target_cases)
  case readonly
  then show ?thesis by (simp add: fan_out_step_def is_mutable_input_def)
next
  case (mutable src')
  with assms(2) have "src' = src" by (simp add: vector_values_param_Inr)
  with mutable show ?thesis by (simp add: fan_out_step_def is_mutable_input_def)
next
  case boundary
  then show ?thesis by (simp add: fan_out_step_def is_mutable_input_def)
qed

lemma is_mutable_input_demandable: "is_mutable_input fn tg \<Longrightarrow> demandable fn tg"
  by (simp add: is_mutable_input_def demandable_def)

lemma fan_out_inv_step:
  assumes inv: "fan_out_inv fn r src s pre t" and step: "fan_out_step fn r src tg t t'"
  shows "fan_out_inv fn r src s (pre @ [tg]) t'"
proof -
  from inv have "\<exists>news. heap t = heap s @ news"
    and le: "values_of s \<subseteq>\<^sub>m values_of t"
    and served: "\<forall>x \<in> set pre. demandable fn x \<longrightarrow> consumer_served fn r src s t x"
    and inj: "\<forall>x \<in> set pre. \<forall>y \<in> set pre. is_mutable_input fn x \<and> is_mutable_input fn y
            \<and> values_of t x = values_of t y \<longrightarrow> x = y"
    by (simp_all add: fan_out_inv_def)
  then obtain news where news: "heap t = heap s @ news" by blast
  from step consider
    (shared) "values_of t tg = None" "\<not> is_mutable_input fn tg" "t' = with_value tg (VirtualListList r) t"
    | (copied) "values_of t tg = None" "is_mutable_input fn tg" "t' = with_copy tg src t"
    | (skipped) "\<not> demandable fn tg" "t' = t"
    by (auto simp: fan_out_step_def)
  then show ?thesis
  proof cases
    case skipped
    then have "\<not> is_mutable_input fn tg" using is_mutable_input_demandable by blast
    with skipped inv show ?thesis by (simp add: fan_out_inv_def)
  next
    case shared
    have keep: "consumer_served fn r src s t' x" if "consumer_served fn r src s t x" for x
      using that shared by (auto simp: consumer_served_def)
    have "values_of t \<subseteq>\<^sub>m values_of t'" using shared by (auto simp: map_le_def)
    with le have "values_of s \<subseteq>\<^sub>m values_of t'" by (rule map_le_trans)
    moreover have "consumer_served fn r src s t' tg" using shared by (simp add: consumer_served_def)
    moreover have "\<forall>x \<in> set (pre @ [tg]). \<forall>y \<in> set (pre @ [tg]).
        is_mutable_input fn x \<and> is_mutable_input fn y \<and> values_of t' x = values_of t' y \<longrightarrow> x = y"
      using shared inj by (auto split: if_splits)
    moreover have "\<exists>news. heap t' = heap s @ news" using shared news by simp
    moreover have "\<forall>x \<in> set (pre @ [tg]). demandable fn x \<longrightarrow> consumer_served fn r src s t' x"
      using served keep \<open>consumer_served fn r src s t' tg\<close> by auto
    ultimately show ?thesis
      unfolding fan_out_inv_def by blast
  next
    case copied
    have keep: "consumer_served fn r src s t' x" if sv: "consumer_served fn r src s t x" for x
    proof (cases "is_mutable_input fn x")
      case False
      with sv copied show ?thesis by (auto simp: consumer_served_def)
    next
      case True
      with sv obtain c where c: "values_of t x = Some (VectorArray c)" "length (heap s) \<le> c"
        "c < length (heap t)" "heap t ! c = VectorBuf src"
        by (auto simp: consumer_served_def)
      from c(1) copied(1) have "x \<noteq> tg" by auto
      with c copied(3) have "values_of t' x = Some (VectorArray c)" "c < length (heap t')"
        "heap t' ! c = VectorBuf src"
        by (simp_all add: nth_append)
      with True c(2) show ?thesis unfolding consumer_served_def by auto
    qed
    have "values_of t \<subseteq>\<^sub>m values_of t'" using copied by (auto simp: map_le_def)
    with le have "values_of s \<subseteq>\<^sub>m values_of t'" by (rule map_le_trans)
    moreover have "consumer_served fn r src s t' tg"
      using copied news by (simp add: consumer_served_def)
    moreover have "\<forall>x \<in> set (pre @ [tg]). \<forall>y \<in> set (pre @ [tg]).
        is_mutable_input fn x \<and> is_mutable_input fn y \<and> values_of t' x = values_of t' y \<longrightarrow> x = y"
    proof (intro ballI impI)
      fix x y
      assume x: "x \<in> set (pre @ [tg])" and y: "y \<in> set (pre @ [tg])"
        and h: "is_mutable_input fn x \<and> is_mutable_input fn y \<and> values_of t' x = values_of t' y"
      have old: "values_of t z \<noteq> Some (VectorArray (length (heap t)))"
        if "z \<in> set pre" "is_mutable_input fn z" for z
      proof -
        from that served have "consumer_served fn r src s t z"
          using is_mutable_input_demandable by blast
        with that show ?thesis by (auto simp: consumer_served_def)
      qed
      show "x = y"
      proof (cases "x = tg")
        case True
        show ?thesis
        proof (cases "y = tg")
          case True
          with \<open>x = tg\<close> show ?thesis by simp
        next
          case False
          with y have "y \<in> set pre" by simp
          with old[of y] h True False copied show ?thesis by auto
        qed
      next
        case False
        with x have xp: "x \<in> set pre" by simp
        show ?thesis
        proof (cases "y = tg")
          case True
          with old[of x] xp h False copied show ?thesis by auto
        next
          case yf: False
          with y have "y \<in> set pre" by simp
          with xp inj h False yf copied show ?thesis by auto
        qed
      qed
    qed
    moreover have "\<exists>news. heap t' = heap s @ news" using copied news by simp
    moreover have "\<forall>x \<in> set (pre @ [tg]). demandable fn x \<longrightarrow> consumer_served fn r src s t' x"
      using served keep \<open>consumer_served fn r src s t' tg\<close> by auto
    ultimately show ?thesis
      unfolding fan_out_inv_def by blast
  qed
qed

lemma fan_out_inv_start: "fan_out_inv fn r src s [] s"
  by (simp add: fan_out_inv_def)

lemma fan_out_loop:
  assumes "for_each body ts s = Inr s'"
    and "\<And>tg t t' news. tg \<in> set ts \<Longrightarrow> heap t = heap s @ news \<Longrightarrow> body tg t = Inr t'
            \<Longrightarrow> fan_out_step fn r src tg t t'"
  shows "fan_out_inv fn r src s ts s'"
proof (rule for_each_prefix_invariant[OF assms(1), where I="fan_out_inv fn r src s"])
  show "fan_out_inv fn r src s [] s" by (rule fan_out_inv_start)
next
  fix pre x post t t'
  assume xs: "ts = pre @ x # post" and inv: "fan_out_inv fn r src s pre t" and b: "body x t = Inr t'"
  from inv have "\<exists>news. heap t = heap s @ news" by (simp add: fan_out_inv_def)
  then obtain news where "heap t = heap s @ news" by blast
  with assms(2)[of x t news t'] xs b have "fan_out_step fn r src x t t'" by simp
  with inv show "fan_out_inv fn r src s (pre @ [x]) t'" by (rule fan_out_inv_step)
qed

lemma fan_out_inv_of_loops:
  assumes "for_each (forward_vector_target fn a) ts s = Inr s' \<and> a < length (heap s)
             \<and> heap s ! a = VectorBuf src \<and> r = HeapRef a
           \<or> for_each (bind_vector_input_target fn params (ParamRef j)) ts s = Inr s'
             \<and> params ! j = ReadonlyVectorArg src \<and> r = ParamRef j"
  shows "fan_out_inv fn r src s ts s'"
  using assms
proof (elim disjE conjE)
  assume loop: "for_each (forward_vector_target fn a) ts s = Inr s'"
    and a: "a < length (heap s)" "heap s ! a = VectorBuf src" and r: "r = HeapRef a"
  show ?thesis unfolding r
  proof (rule fan_out_loop[OF loop])
    fix tg t t' news
    assume "heap t = heap s @ news" "forward_vector_target fn a tg t = Inr t'"
    with a show "fan_out_step fn (HeapRef a) src tg t t'"
      using forward_vector_target_fan_out_step by blast
  qed
next
  assume loop: "for_each (bind_vector_input_target fn params (ParamRef j)) ts s = Inr s'"
    and p: "params ! j = ReadonlyVectorArg src" and r: "r = ParamRef j"
  show ?thesis unfolding r
  proof (rule fan_out_loop[OF loop])
    fix tg t t' news
    assume "bind_vector_input_target fn params (ParamRef j) tg t = Inr t'"
    with p show "fan_out_step fn (ParamRef j) src tg t t'"
      using bind_vector_input_target_fan_out_step by blast
  qed
qed

lemma fan_out_inv_fresh_not_source:
  assumes "a < length (heap s) \<and> r = HeapRef a \<or> r = ParamRef j" "length (heap s) \<le> c"
  shows "HeapRef c \<noteq> r"
  using assms by auto


text \<open>
  C1 (vector fan-out forwarding rule). Whenever a vector collection \<open>r\<close> with contents
  \<open>src\<close> is forwarded to the consumers \<open>ts\<close> of an output socket (the loop of lines
  190--216, \<open>r\<close> the heap buffer \<open>a\<close>) or bound from a caller-supplied network input (the
  loop of lines 32--58, \<open>r\<close> the caller's parameter \<open>j\<close>): every consumer that is a
  read-only vector parameter is associated with \<open>r\<close> itself; every consumer that is a
  mutable vector parameter is associated with a buffer allocated during the loop, different
  from \<open>r\<close>, whose contents are those of \<open>src\<close> at every index; a mutable consumer
  observes a buffer no other consumer of the socket observes; and writing new contents to a
  mutable consumer's buffer changes the values no other consumer observes.
\<close>

theorem vector_fan_out_forwarding_rule:
  assumes "for_each (forward_vector_target fn a) ts s = Inr s' \<and> a < length (heap s)
             \<and> heap s ! a = VectorBuf src \<and> r = HeapRef a
           \<or> for_each (bind_vector_input_target fn params (ParamRef j)) ts s = Inr s'
             \<and> params ! j = ReadonlyVectorArg src \<and> r = ParamRef j"
  shows "(\<forall>tg \<in> set ts.
            is_function (node_of fn (in_node (input_socket fn tg)))
            \<and> input_param_type fn tg = ReadonlyVectorInput
            \<longrightarrow> values_of s' tg = Some (VirtualListList r))
       \<and> (\<forall>tg \<in> set ts.
            is_function (node_of fn (in_node (input_socket fn tg)))
            \<and> input_param_type fn tg = MutableVector
            \<longrightarrow> (\<exists>c. values_of s' tg = Some (VectorArray c) \<and> length (heap s) \<le> c
                   \<and> c < length (heap s') \<and> HeapRef c \<noteq> r \<and> heap s' ! c = VectorBuf src))
       \<and> (\<forall>t1 \<in> set ts. \<forall>t2 \<in> set ts. \<forall>v1 v2.
            t1 \<noteq> t2 \<and> is_mutable_input fn t1 \<and> demandable fn t2
            \<and> values_of s' t1 = Some v1 \<and> values_of s' t2 = Some v2
            \<longrightarrow> observed_buffer v1 \<noteq> observed_buffer v2
                \<and> (\<forall>c xs ps. v1 = VectorArray c \<longrightarrow>
                      vector_values ps ((heap s')[c := VectorBuf xs]) (observed_buffer v2)
                        = vector_values ps (heap s') (observed_buffer v2)))"
proof -
  from assms have inv: "fan_out_inv fn r src s ts s'" by (rule fan_out_inv_of_loops)
  from assms have src: "a < length (heap s) \<and> r = HeapRef a \<or> r = ParamRef j" by auto
  from inv have served: "\<forall>tg \<in> set ts. demandable fn tg \<longrightarrow> consumer_served fn r src s s' tg"
    and inj: "\<forall>x \<in> set ts. \<forall>y \<in> set ts. is_mutable_input fn x \<and> is_mutable_input fn y
            \<and> values_of s' x = values_of s' y \<longrightarrow> x = y"
    by (simp_all add: fan_out_inv_def)
  have ro: "values_of s' tg = Some (VirtualListList r)"
    if "tg \<in> set ts" "is_function (node_of fn (in_node (input_socket fn tg)))"
       "input_param_type fn tg = ReadonlyVectorInput" for tg
  proof -
    from that have "demandable fn tg" "\<not> is_mutable_input fn tg"
      by (simp_all add: demandable_def is_mutable_input_def)
    with served that(1) show ?thesis by (simp add: consumer_served_def)
  qed
  have mu: "\<exists>c. values_of s' tg = Some (VectorArray c) \<and> length (heap s) \<le> c
                   \<and> c < length (heap s') \<and> HeapRef c \<noteq> r \<and> heap s' ! c = VectorBuf src"
    if "tg \<in> set ts" "is_mutable_input fn tg" for tg
  proof -
    from that served is_mutable_input_demandable have "consumer_served fn r src s s' tg" by blast
    with that(2) obtain c where c: "values_of s' tg = Some (VectorArray c)" "length (heap s) \<le> c"
      "c < length (heap s')" "heap s' ! c = VectorBuf src"
      by (auto simp: consumer_served_def)
    from src c(2) have "HeapRef c \<noteq> r" by auto
    with c show ?thesis by blast
  qed
  have apart: "observed_buffer v1 \<noteq> observed_buffer v2
                \<and> (\<forall>c xs ps. v1 = VectorArray c \<longrightarrow>
                      vector_values ps ((heap s')[c := VectorBuf xs]) (observed_buffer v2)
                        = vector_values ps (heap s') (observed_buffer v2))"
    if t: "t1 \<in> set ts" "t2 \<in> set ts" "t1 \<noteq> t2" "is_mutable_input fn t1" "demandable fn t2"
      and v: "values_of s' t1 = Some v1" "values_of s' t2 = Some v2" for t1 t2 v1 v2
  proof -
    from mu[OF t(1) t(4)] v(1) obtain c1 where c1: "v1 = VectorArray c1" "HeapRef c1 \<noteq> r"
      by auto
    have ne: "observed_buffer v2 \<noteq> HeapRef c1"
    proof (cases "is_mutable_input fn t2")
      case True
      from mu[OF t(2) True] v(2) obtain c2 where c2: "v2 = VectorArray c2" by auto
      from inj t True v c1 c2 have "c1 \<noteq> c2" by auto
      with c2 show ?thesis by (simp add: observed_buffer_def)
    next
      case False
      with served t(2) t(5) v(2) have "v2 = VirtualListList r" by (simp add: consumer_served_def)
      with c1 show ?thesis by (auto simp: observed_buffer_def)
    qed
    have "vector_values ps ((heap s')[c1 := VectorBuf xs]) (observed_buffer v2)
                        = vector_values ps (heap s') (observed_buffer v2)" for xs ps
      using ne by (cases "observed_buffer v2") (auto simp: vector_values_def)
    with ne c1 show ?thesis by (auto simp: observed_buffer_def)
  qed
  show ?thesis
  proof (intro conjI ballI allI impI)
    fix tg
    assume "tg \<in> set ts"
      "is_function (node_of fn (in_node (input_socket fn tg))) \<and> input_param_type fn tg = ReadonlyVectorInput"
    then show "values_of s' tg = Some (VirtualListList r)" using ro by blast
  next
    fix tg
    assume "tg \<in> set ts"
      "is_function (node_of fn (in_node (input_socket fn tg))) \<and> input_param_type fn tg = MutableVector"
    then show "\<exists>c. values_of s' tg = Some (VectorArray c) \<and> length (heap s) \<le> c
                   \<and> c < length (heap s') \<and> HeapRef c \<noteq> r \<and> heap s' ! c = VectorBuf src"
      using mu[of tg] by (simp add: is_mutable_input_def)
  next
    fix t1 t2 v1 v2
    assume "t1 \<in> set ts" "t2 \<in> set ts"
      "t1 \<noteq> t2 \<and> is_mutable_input fn t1 \<and> demandable fn t2
            \<and> values_of s' t1 = Some v1 \<and> values_of s' t2 = Some v2"
    then show "observed_buffer v1 \<noteq> observed_buffer v2" using apart[of t1 t2 v1 v2] by blast
  next
    fix t1 t2 v1 v2 c xs ps
    assume "t1 \<in> set ts" "t2 \<in> set ts"
      "t1 \<noteq> t2 \<and> is_mutable_input fn t1 \<and> demandable fn t2
            \<and> values_of s' t1 = Some v1 \<and> values_of s' t2 = Some v2" "v1 = VectorArray c"
    then show "vector_values ps ((heap s')[c := VectorBuf xs]) (observed_buffer v2)
                        = vector_values ps (heap s') (observed_buffer v2)"
      using apart[of t1 t2 v1 v2] by blast
  qed
qed

lemmas storage_defs =
  Storage_new_def input_is_computed_def set_value_for_input_def
  set_virtual_list_for_input__non_owning_def set_virtual_list_list_for_input__non_owning_def
  set_vector_array_for_input__non_owning_def get_virtual_list_for_input_def
  get_virtual_list_list_for_input_def get_vector_array_for_input_def
  take_array_ref_ownership_def take_vector_array_ownership_def
  take_vector_array_ownership__not_twice_def Storage_release_def

lemmas buffer_defs =
  readonly_single_input_def readonly_vector_input_def single_output_def vector_output_def
  single_values_def vector_values_def allocate_array_def GenericVectorArray_new_def
  extend_single__copy_def copy_in__uninitialized_def heap_new_def copy_vector_array_def
  overwrite_def write_back_def

lemmas graph_defs =
  input_socket_def output_socket_def node_of_def param_type_def param_indices_def
  nth_checked_def first_index_def

lemmas engine_defs =
  call_def indices_amount_def min_array_size_def new_state_def copy_inputs_to_storage_def
  copy_input_to_storage_def bind_vector_input_target_def in_storage_def and_then_def
  add_param_def forward_single_output_def forward_vector_target_def forward_vector_output_def
  new_builder_def compute_and_forward_outputs_def scheduler_step_def
  evaluate_network_to_compute_outputs_def copy_output_to_params_def
  copy_computed_values_to_outputs_def

lemmas example_defs =
  add_one_network_def diamond_network_def vector_network_def mismatched_network_def
  unsupported_consumer_network_def boundary_node_def
  single_to_single_node_def append_zero_node_def vector_length_node_def no_function_def
  map_single_call_def add_call_def append_zero_call_def vector_length_call_def

lemmas wf_defs =
  wf_network_def wf_node_def wf_input_socket_def wf_output_socket_def in_kind_def out_kind_def
  input_param_type_def output_param_type_def is_input_param_def is_output_param_def
  params_ok_def input_param_ok_def output_param_ok_def

theorem vector_fan_out_forwarding_rule_witness:
  "for_each (forward_vector_target vector_network 0) [2, 3] fan_out_state
     = Inr (with_value 3 (VirtualListList (HeapRef 0)) (with_copy 2 [[1, 0], [2, 3, 0]] fan_out_state))
   \<and> (\<exists>c. values_of (with_value 3 (VirtualListList (HeapRef 0))
                      (with_copy 2 [[1, 0], [2, 3, 0]] fan_out_state)) 2 = Some (VectorArray c)
          \<and> length (heap fan_out_state) \<le> c \<and> HeapRef c \<noteq> HeapRef 0
          \<and> heap (with_value 3 (VirtualListList (HeapRef 0))
                      (with_copy 2 [[1, 0], [2, 3, 0]] fan_out_state)) ! c
              = VectorBuf [[1, 0], [2, 3, 0]])
   \<and> for_each (bind_vector_input_target vector_network [ReadonlyVectorArg [[1], [2, 3]]] (ParamRef 0))
        [0, 1] (new_state [0, 1])
     = Inr (with_value 1 (VirtualListList (ParamRef 0)) (with_copy 0 [[1], [2, 3]] (new_state [0, 1])))
   \<and> values_of (with_value 1 (VirtualListList (ParamRef 0)) (with_copy 0 [[1], [2, 3]] (new_state [0, 1]))) 1
       = Some (VirtualListList (ParamRef 0))"
proof -
  let ?s1 = "with_value 3 (VirtualListList (HeapRef 0)) (with_copy 2 [[1, 0], [2, 3, 0]] fan_out_state)"
  let ?s2 = "with_value 1 (VirtualListList (ParamRef 0)) (with_copy 0 [[1], [2, 3]] (new_state [0, 1]))"
  have run1: "for_each (forward_vector_target vector_network 0) [2, 3] fan_out_state = Inr ?s1"
    by (simp add: engine_defs storage_defs buffer_defs graph_defs example_defs fan_out_state_def
        with_value_def with_copy_def upt_conv_Cons)
  have run2: "for_each (bind_vector_input_target vector_network [ReadonlyVectorArg [[1], [2, 3]]] (ParamRef 0))
        [0, 1] (new_state [0, 1]) = Inr ?s2"
    by (simp add: engine_defs storage_defs buffer_defs graph_defs example_defs
        with_value_def with_copy_def upt_conv_Cons)
  have mut: "is_function (node_of vector_network (in_node (input_socket vector_network 2)))
            \<and> input_param_type vector_network 2 = MutableVector"
    by (simp add: graph_defs example_defs input_param_type_def)
  have ro: "is_function (node_of vector_network (in_node (input_socket vector_network 1)))
            \<and> input_param_type vector_network 1 = ReadonlyVectorInput"
    by (simp add: graph_defs example_defs input_param_type_def)
  have h1: "for_each (forward_vector_target vector_network 0) [2, 3] fan_out_state = Inr ?s1
            \<and> 0 < length (heap fan_out_state)
            \<and> heap fan_out_state ! 0 = VectorBuf [[1, 0], [2, 3, 0]] \<and> HeapRef 0 = HeapRef 0
          \<or> for_each (bind_vector_input_target vector_network [] (ParamRef 0)) [2, 3] fan_out_state = Inr ?s1
            \<and> [] ! 0 = ReadonlyVectorArg [[1, 0], [2, 3, 0]] \<and> HeapRef 0 = ParamRef 0"
    using run1 by (simp add: fan_out_state_def)
  have h2: "for_each (forward_vector_target vector_network 0) [0, 1] (new_state [0, 1]) = Inr ?s2
            \<and> 0 < length (heap (new_state [0, 1]))
            \<and> heap (new_state [0, 1]) ! 0 = VectorBuf [[1], [2, 3]] \<and> ParamRef 0 = HeapRef 0
          \<or> for_each (bind_vector_input_target vector_network [ReadonlyVectorArg [[1], [2, 3]]] (ParamRef 0))
               [0, 1] (new_state [0, 1]) = Inr ?s2
            \<and> [ReadonlyVectorArg [[1], [2, 3]]] ! 0 = ReadonlyVectorArg [[1], [2, 3]]
            \<and> ParamRef 0 = ParamRef 0"
    using run2 by simp
  from vector_fan_out_forwarding_rule[OF h1] mut
  have c1: "\<exists>c. values_of ?s1 2 = Some (VectorArray c) \<and> length (heap fan_out_state) \<le> c
          \<and> HeapRef c \<noteq> HeapRef 0 \<and> heap ?s1 ! c = VectorBuf [[1, 0], [2, 3, 0]]"
    by auto
  from vector_fan_out_forwarding_rule[OF h2] ro
  have c2: "values_of ?s2 1 = Some (VirtualListList (ParamRef 0))"
    by auto
  from run1 run2 c1 c2 show ?thesis by blast
qed

text \<open>
  C4 (empty-mask short-circuit). A call with a mask of no active index returns at once:
  the caller's parameters are returned as they were passed, output destinations included,
  and no state of an evaluation exists, so that no storage was created and no function node
  was invoked.
\<close>

theorem empty_mask_short_circuit:
  "indices_amount msk = 0 \<Longrightarrow> call fn msk params = Some (Inr (params, None))"
  by (simp add: call_def)

theorem empty_mask_short_circuit_witness:
  "indices_amount [] = 0
   \<and> call vector_network []
        [ReadonlyVectorArg [[1], [2, 3]], VectorOutputArg [[7], []], SingleOutputArg [None, Some 5],
         VectorOutputArg [[], []]]
      = Some (Inr ([ReadonlyVectorArg [[1], [2, 3]], VectorOutputArg [[7], []],
                    SingleOutputArg [None, Some 5], VectorOutputArg [[], []]], None))"
proof -
  have h: "indices_amount [] = 0" by (simp add: indices_amount_def)
  from empty_mask_short_circuit[OF h] h show ?thesis by blast
qed

section \<open>Consequences of well-formedness\<close>

lemma list_all_upt: "list_all P [0..<n] \<longleftrightarrow> (\<forall>i<n. P i)"
  by (auto simp: list_all_iff)

lemma list_all_mem: "list_all P xs \<Longrightarrow> x \<in> set xs \<Longrightarrow> P x"
  by (simp add: list_all_iff)

lemma wf_network_node: "wf_network fn \<Longrightarrow> n < length (nodes (network fn)) \<Longrightarrow> wf_node fn n"
  by (simp add: wf_network_def list_all_upt)

lemma wf_network_input_socket:
  "wf_network fn \<Longrightarrow> i < length (input_sockets (network fn)) \<Longrightarrow> wf_input_socket fn i"
  by (simp add: wf_network_def list_all_upt)

lemma wf_network_output_socket:
  "wf_network fn \<Longrightarrow> out < length (output_sockets (network fn)) \<Longrightarrow> wf_output_socket fn out"
  by (simp add: wf_network_def list_all_upt)

lemma wf_network_m_inputs:
  "wf_network fn \<Longrightarrow> out \<in> set (m_inputs fn) \<Longrightarrow>
     out < length (output_sockets (network fn))
     \<and> \<not> is_function (node_of fn (out_node (output_socket fn out)))"
proof -
  assume "wf_network fn" and mem: "out \<in> set (m_inputs fn)"
  then have "list_all (\<lambda>out. out < length (output_sockets (network fn))
      \<and> \<not> is_function (node_of fn (out_node (output_socket fn out)))) (m_inputs fn)"
    by (simp add: wf_network_def)
  from list_all_mem[OF this mem] show ?thesis .
qed

lemma wf_network_distinct_m_inputs: "wf_network fn \<Longrightarrow> distinct (m_inputs fn)"
  by (simp add: wf_network_def)

lemma wf_network_m_outputs:
  "wf_network fn \<Longrightarrow> i \<in> set (m_outputs fn) \<Longrightarrow>
     i < length (input_sockets (network fn))
     \<and> \<not> is_function (node_of fn (in_node (input_socket fn i)))"
proof -
  assume "wf_network fn" and mem: "i \<in> set (m_outputs fn)"
  then have "list_all (\<lambda>i. i < length (input_sockets (network fn))
      \<and> \<not> is_function (node_of fn (in_node (input_socket fn i)))) (m_outputs fn)"
    by (simp add: wf_network_def)
  from list_all_mem[OF this mem] show ?thesis .
qed

lemma wf_node_input:
  "wf_node fn n \<Longrightarrow> k < length (inputs (node_of fn n)) \<Longrightarrow>
     inputs (node_of fn n) ! k < length (input_sockets (network fn))
     \<and> in_node (input_socket fn (inputs (node_of fn n) ! k)) = n
     \<and> in_index (input_socket fn (inputs (node_of fn n) ! k)) = k"
  by (simp add: wf_node_def Let_def list_all_upt)

lemma wf_node_output:
  "wf_node fn n \<Longrightarrow> k < length (outputs (node_of fn n)) \<Longrightarrow>
     outputs (node_of fn n) ! k < length (output_sockets (network fn))
     \<and> out_node (output_socket fn (outputs (node_of fn n) ! k)) = n
     \<and> out_index (output_socket fn (outputs (node_of fn n) ! k)) = k"
  by (simp add: wf_node_def Let_def list_all_upt)

lemma wf_node_function:
  assumes "wf_node fn n" "is_function (node_of fn n)"
  shows "length (input_param_indices (node_of fn n)) = length (inputs (node_of fn n))"
    and "length (output_param_indices (node_of fn n)) = length (outputs (node_of fn n))"
    and "distinct (input_param_indices (node_of fn n))"
    and "distinct (output_param_indices (node_of fn n))"
    and "length (inputs (node_of fn n)) < 2 ^ 32"
  using assms by (simp_all add: wf_node_def Let_def)

lemma wf_node_input_param:
  assumes "wf_node fn n" "is_function (node_of fn n)" "p \<in> set (input_param_indices (node_of fn n))"
  shows "p < length (param_types (node_function (node_of fn n)))
         \<and> is_input_param (param_types (node_function (node_of fn n)) ! p)"
proof -
  from assms(1,2) have "list_all (\<lambda>p. p < length (param_types (node_function (node_of fn n)))
      \<and> is_input_param (param_types (node_function (node_of fn n)) ! p))
      (input_param_indices (node_of fn n))"
    by (simp add: wf_node_def Let_def)
  from list_all_mem[OF this assms(3)] show ?thesis .
qed

lemma wf_node_output_param:
  assumes "wf_node fn n" "is_function (node_of fn n)" "p \<in> set (output_param_indices (node_of fn n))"
  shows "p < length (param_types (node_function (node_of fn n)))
         \<and> is_output_param (param_types (node_function (node_of fn n)) ! p)"
proof -
  from assms(1,2) have "list_all (\<lambda>p. p < length (param_types (node_function (node_of fn n)))
      \<and> is_output_param (param_types (node_function (node_of fn n)) ! p))
      (output_param_indices (node_of fn n))"
    by (simp add: wf_node_def Let_def)
  from list_all_mem[OF this assms(3)] show ?thesis .
qed

lemma wf_node_param_covered:
  assumes "wf_node fn n" "is_function (node_of fn n)"
    "p < length (param_types (node_function (node_of fn n)))"
  shows "(is_input_param (param_types (node_function (node_of fn n)) ! p)
            \<longrightarrow> p \<in> set (input_param_indices (node_of fn n)))
       \<and> (is_output_param (param_types (node_function (node_of fn n)) ! p)
            \<longrightarrow> p \<in> set (output_param_indices (node_of fn n)))"
  using assms by (simp add: wf_node_def Let_def list_all_upt)

lemma wf_input_socketD:
  assumes "wf_input_socket fn i"
  shows "in_node (input_socket fn i) < length (nodes (network fn))"
    and "in_index (input_socket fn i) < length (inputs (node_of fn (in_node (input_socket fn i))))"
    and "inputs (node_of fn (in_node (input_socket fn i))) ! in_index (input_socket fn i) = i"
    and "origin (input_socket fn i) < length (output_sockets (network fn))"
    and "i \<in> set (targets (output_socket fn (origin (input_socket fn i))))"
    and "in_kind fn i = out_kind fn (origin (input_socket fn i))"
    and "is_function (node_of fn (out_node (output_socket fn (origin (input_socket fn i)))))
          \<or> origin (input_socket fn i) \<in> set (m_inputs fn)"
  using assms by (simp_all add: wf_input_socket_def Let_def)

lemma wf_output_socketD:
  assumes "wf_output_socket fn out"
  shows "out_node (output_socket fn out) < length (nodes (network fn))"
    and "out_index (output_socket fn out) < length (outputs (node_of fn (out_node (output_socket fn out))))"
    and "outputs (node_of fn (out_node (output_socket fn out))) ! out_index (output_socket fn out) = out"
    and "distinct (targets (output_socket fn out))"
  using assms by (simp_all add: wf_output_socket_def Let_def)

lemma wf_output_socket_target:
  assumes "wf_output_socket fn out" "t \<in> set (targets (output_socket fn out))"
  shows "t < length (input_sockets (network fn)) \<and> origin (input_socket fn t) = out"
proof -
  from assms(1) have "list_all (\<lambda>t. t < length (input_sockets (network fn))
      \<and> origin (input_socket fn t) = out) (targets (output_socket fn out))"
    by (simp add: wf_output_socket_def Let_def)
  from list_all_mem[OF this assms(2)] show ?thesis .
qed

section \<open>First index\<close>

lemma first_index_opt_Some:
  "first_index_opt xs v = Some k \<Longrightarrow> k < length xs \<and> xs ! k = v"
proof (induction xs arbitrary: k)
  case Nil
  then show ?case by simp
next
  case (Cons x xs)
  then show ?case by (cases "x = v") auto
qed

lemma first_index_opt_nth:
  "distinct xs \<Longrightarrow> k < length xs \<Longrightarrow> first_index_opt xs (xs ! k) = Some k"
proof (induction xs arbitrary: k)
  case Nil
  then show ?case by simp
next
  case (Cons x xs)
  then show ?case by (cases k) auto
qed

lemma first_index_opt_mem:
  "v \<in> set xs \<Longrightarrow> \<exists>k. first_index_opt xs v = Some k"
  by (induction xs) auto

lemma first_index_Inr: "first_index xs v = Inr k \<longleftrightarrow> first_index_opt xs v = Some k"
  by (simp add: first_index_def split: option.splits)

lemma upt_split:
  assumes "[0..<n] = pre @ x # post"
  shows "pre = [0..<x] \<and> x < n"
proof -
  have "length [0..<n] = length (pre @ x # post)" by (simp only: assms)
  then have len: "length pre < n" by simp
  have "[0..<n] ! length pre = (pre @ x # post) ! length pre" by (simp only: assms)
  then have x: "x = length pre" using len by simp
  have "take (length pre) [0..<n] = take (length pre) (pre @ x # post)" by (simp only: assms)
  then have "take (length pre) [0..<n] = pre" by simp
  moreover have "take (length pre) [0..<n] = [0..<length pre]" using len by (simp add: take_upt)
  ultimately show ?thesis using len x by simp
qed

section \<open>The parameter loop\<close>

lemma single_ref_ok_values:
  "single_ref_ok n params h r \<Longrightarrow> \<exists>xs. single_values params (h @ news) r = Inr xs"
  by (cases r)
     (auto simp: single_ref_ok_def single_values_def is_array_buffer_def nth_append
           split: MFParam.splits buffer.splits)

lemma vector_ref_ok_values:
  "vector_ref_ok n params h r \<Longrightarrow> \<exists>xs. vector_values params (h @ news) r = Inr xs"
  by (cases r)
     (auto simp: vector_ref_ok_def vector_values_def is_vector_buffer_def nth_append
           split: MFParam.splits buffer.splits)

lemma stored_okD:
  "stored_ok fn msk params s \<Longrightarrow> values_of s i = Some v \<Longrightarrow>
     stored_fits fn i v
     \<and> stored_ref_ok (min_array_size msk) params (heap s) (m_vector_arrays (storage s)) v"
  by (simp add: stored_ok_def)

text \<open>The input socket of an input parameter of a ready node, and what is stored for it.\<close>

lemma ready_input_param:
  assumes wf: "wf_node fn n" and fu: "is_function (node_of fn n)"
    and p: "p < length (param_types (node_function (node_of fn n)))"
    and ip: "is_input_param (param_types (node_function (node_of fn n)) ! p)"
  obtains k where "first_index_opt (input_param_indices (node_of fn n)) p = Some k"
    "k < length (inputs (node_of fn n))"
    "input_param_type fn (inputs (node_of fn n) ! k) = param_types (node_function (node_of fn n)) ! p"
    "in_node (input_socket fn (inputs (node_of fn n) ! k)) = n"
proof -
  from wf_node_param_covered[OF wf fu p] ip
  have "p \<in> set (input_param_indices (node_of fn n))" by simp
  from first_index_opt_mem[OF this] obtain k
    where k: "first_index_opt (input_param_indices (node_of fn n)) p = Some k" by blast
  from first_index_opt_Some[OF k] wf_node_function(1)[OF wf fu]
  have kl: "k < length (inputs (node_of fn n))" and kp: "input_param_indices (node_of fn n) ! k = p"
    by simp_all
  from wf_node_input[OF wf kl] kp
  have "input_param_type fn (inputs (node_of fn n) ! k) = param_types (node_function (node_of fn n)) ! p"
    and "in_node (input_socket fn (inputs (node_of fn n) ! k)) = n"
    by (simp_all add: input_param_type_def)
  with k kl show ?thesis by (rule that)
qed

lemma ready_output_param:
  assumes wf: "wf_node fn n" and fu: "is_function (node_of fn n)"
    and p: "p < length (param_types (node_function (node_of fn n)))"
    and ip: "is_output_param (param_types (node_function (node_of fn n)) ! p)"
  obtains k where "first_index_opt (output_param_indices (node_of fn n)) p = Some k"
    "k < length (outputs (node_of fn n))"
proof -
  from wf_node_param_covered[OF wf fu p] ip
  have "p \<in> set (output_param_indices (node_of fn n))" by simp
  from first_index_opt_mem[OF this] obtain k
    where k: "first_index_opt (output_param_indices (node_of fn n)) p = Some k" by blast
  from first_index_opt_Some[OF k] wf_node_function(2)[OF wf fu]
  have "k < length (outputs (node_of fn n))" by simp
  with k show ?thesis by (rule that)
qed

lemma stored_for_single_input:
  assumes "stored_ok fn msk params s" "values_of s i = Some v"
    "is_function (node_of fn (in_node (input_socket fn i)))"
    "input_param_type fn i = ReadonlySingleInput"
  obtains r where "v = VirtualList r" "single_ref_ok (min_array_size msk) params (heap s) r"
proof -
  from stored_okD[OF assms(1,2)] assms(3,4) show ?thesis
    by (cases v) (auto simp: stored_fits_def stored_ref_ok_def in_kind_def is_mutable_input_def intro: that)
qed

lemma stored_for_vector_input:
  assumes "stored_ok fn msk params s" "values_of s i = Some v"
    "is_function (node_of fn (in_node (input_socket fn i)))"
    "input_param_type fn i = ReadonlyVectorInput"
  obtains r where "v = VirtualListList r" "vector_ref_ok (min_array_size msk) params (heap s) r"
proof -
  from stored_okD[OF assms(1,2)] assms(3,4) show ?thesis
    by (cases v) (auto simp: stored_fits_def stored_ref_ok_def in_kind_def is_mutable_input_def intro: that)
qed

lemma stored_for_mutable_input:
  assumes "stored_ok fn msk params s" "values_of s i = Some v"
    "is_function (node_of fn (in_node (input_socket fn i)))"
    "input_param_type fn i = MutableVector"
  obtains a where "v = VectorArray a" "a < length (heap s)" "is_vector_buffer (heap s ! a)"
    "a \<in> set (m_vector_arrays (storage s))"
proof -
  from stored_okD[OF assms(1,2)] assms(3,4) show ?thesis
    by (cases v) (auto simp: stored_fits_def stored_ref_ok_def in_kind_def is_mutable_input_def intro: that)
qed

lemma builder_inv_start: "builder_inv nd h0 regs n [] (new_builder h0)"
  by (simp add: builder_inv_def new_builder_def)

lemma builder_inv_heapD:
  "builder_inv nd h0 regs n pre b \<Longrightarrow> \<exists>news. builder_heap b = h0 @ news \<and> (\<forall>x \<in> set news. buffer_rows x = n)"
  by (simp add: builder_inv_def)

lemma builder_inv_keep:
  assumes inv: "builder_inv nd h0 regs n pre b"
    and same: "single_outputs_to_forward b' = single_outputs_to_forward b"
      "vector_outputs_to_forward b' = vector_outputs_to_forward b"
      "builder_heap b' = builder_heap b"
    and pt: "param_types (node_function nd) ! p = ReadonlySingleInput
             \<or> param_types (node_function nd) ! p = ReadonlyVectorInput"
  shows "builder_inv nd h0 regs n (pre @ [p]) b'"
proof -
  from pt have "filter (\<lambda>p. param_types (node_function nd) ! p = SingleOutput) (pre @ [p])
        = filter (\<lambda>p. param_types (node_function nd) ! p = SingleOutput) pre"
    and "filter (\<lambda>p. param_types (node_function nd) ! p = VectorOutput
                    \<or> param_types (node_function nd) ! p = MutableVector) (pre @ [p])
        = filter (\<lambda>p. param_types (node_function nd) ! p = VectorOutput
                    \<or> param_types (node_function nd) ! p = MutableVector) pre"
    by auto
  with inv same show ?thesis by (simp add: builder_inv_def)
qed

lemma builder_inv_single_output:
  assumes inv: "builder_inv nd h0 regs n pre b"
    and upd: "single_outputs_to_forward b'
                = single_outputs_to_forward b @ [(fwd_socket nd p, length (builder_heap b))]"
      "vector_outputs_to_forward b' = vector_outputs_to_forward b"
      "builder_heap b' = builder_heap b @ [ArrayBuf xs]" "length xs = n"
    and pt: "param_types (node_function nd) ! p = SingleOutput"
  shows "builder_inv nd h0 regs n (pre @ [p]) b'"
proof -
  from inv obtain news where news: "builder_heap b = h0 @ news" "\<forall>x \<in> set news. buffer_rows x = n"
    by (auto simp: builder_inv_def)
  from inv have so: "\<forall>a \<in> snd ` set (single_outputs_to_forward b).
            length h0 \<le> a \<and> a < length (builder_heap b) \<and> is_array_buffer (builder_heap b ! a)"
    and di: "distinct (map snd (single_outputs_to_forward b))"
    and vo: "\<forall>a \<in> snd ` set (vector_outputs_to_forward b).
            a < length (builder_heap b) \<and> is_vector_buffer (builder_heap b ! a)
            \<and> (a < length h0 \<longrightarrow> a \<in> set regs)"
    and cov: "{length h0..<length (builder_heap b)}
           \<subseteq> snd ` set (single_outputs_to_forward b) \<union> snd ` set (vector_outputs_to_forward b)"
    and f1: "map fst (single_outputs_to_forward b)
           = map (fwd_socket nd) (filter (\<lambda>p. param_types (node_function nd) ! p = SingleOutput) pre)"
    and f2: "map fst (vector_outputs_to_forward b)
           = map (fwd_socket nd) (filter (\<lambda>p. param_types (node_function nd) ! p = VectorOutput
                          \<or> param_types (node_function nd) ! p = MutableVector) pre)"
    by (simp_all add: builder_inv_def)
  have 1: "\<exists>news. builder_heap b' = h0 @ news \<and> (\<forall>x \<in> set news. buffer_rows x = n)"
    using news upd by (auto simp: buffer_rows_def)
  have 2: "\<forall>a \<in> snd ` set (single_outputs_to_forward b').
            length h0 \<le> a \<and> a < length (builder_heap b') \<and> is_array_buffer (builder_heap b' ! a)"
  proof
    fix a assume "a \<in> snd ` set (single_outputs_to_forward b')"
    with upd(1) consider "a \<in> snd ` set (single_outputs_to_forward b)" | "a = length (builder_heap b)"
      by auto
    then show "length h0 \<le> a \<and> a < length (builder_heap b') \<and> is_array_buffer (builder_heap b' ! a)"
    proof cases
      case 1
      with so upd(3) show ?thesis by (auto simp: nth_append)
    next
      case 2
      with upd(3) news show ?thesis by (simp add: is_array_buffer_def)
    qed
  qed
  have 3: "distinct (map snd (single_outputs_to_forward b'))"
    using di so upd(1) by auto
  have 4: "\<forall>a \<in> snd ` set (vector_outputs_to_forward b').
            a < length (builder_heap b') \<and> is_vector_buffer (builder_heap b' ! a)
            \<and> (a < length h0 \<longrightarrow> a \<in> set regs)"
  proof
    fix a assume "a \<in> snd ` set (vector_outputs_to_forward b')"
    with upd(2) vo have "a < length (builder_heap b) \<and> is_vector_buffer (builder_heap b ! a)
            \<and> (a < length h0 \<longrightarrow> a \<in> set regs)" by auto
    with upd(3) show "a < length (builder_heap b') \<and> is_vector_buffer (builder_heap b' ! a)
            \<and> (a < length h0 \<longrightarrow> a \<in> set regs)" by (simp add: nth_append)
  qed
  have 5: "{length h0..<length (builder_heap b')}
           \<subseteq> snd ` set (single_outputs_to_forward b') \<union> snd ` set (vector_outputs_to_forward b')"
  proof
    fix a assume "a \<in> {length h0..<length (builder_heap b')}"
    with upd(3) have "a \<in> {length h0..<length (builder_heap b)} \<or> a = length (builder_heap b)"
      by auto
    with cov upd(1,2) show "a \<in> snd ` set (single_outputs_to_forward b') \<union> snd ` set (vector_outputs_to_forward b')"
      by auto
  qed
  have 6: "map fst (single_outputs_to_forward b')
           = map (fwd_socket nd) (filter (\<lambda>p. param_types (node_function nd) ! p = SingleOutput) (pre @ [p]))"
    using f1 upd(1) pt by simp
  have 7: "map fst (vector_outputs_to_forward b')
           = map (fwd_socket nd) (filter (\<lambda>p. param_types (node_function nd) ! p = VectorOutput
                          \<or> param_types (node_function nd) ! p = MutableVector) (pre @ [p]))"
    using f2 upd(2) pt by simp
  from 1 2 3 4 5 6 7 show ?thesis unfolding builder_inv_def by blast
qed

lemma builder_inv_vector_output:
  assumes inv: "builder_inv nd h0 regs n pre b"
    and upd: "single_outputs_to_forward b' = single_outputs_to_forward b"
      "vector_outputs_to_forward b'
         = vector_outputs_to_forward b @ [(fwd_socket nd p, length (builder_heap b))]"
      "builder_heap b' = builder_heap b @ [VectorBuf xs]" "length xs = n"
    and pt: "param_types (node_function nd) ! p = VectorOutput"
  shows "builder_inv nd h0 regs n (pre @ [p]) b'"
proof -
  from inv obtain news where news: "builder_heap b = h0 @ news" "\<forall>x \<in> set news. buffer_rows x = n"
    by (auto simp: builder_inv_def)
  from inv have so: "\<forall>a \<in> snd ` set (single_outputs_to_forward b).
            length h0 \<le> a \<and> a < length (builder_heap b) \<and> is_array_buffer (builder_heap b ! a)"
    and di: "distinct (map snd (single_outputs_to_forward b))"
    and vo: "\<forall>a \<in> snd ` set (vector_outputs_to_forward b).
            a < length (builder_heap b) \<and> is_vector_buffer (builder_heap b ! a)
            \<and> (a < length h0 \<longrightarrow> a \<in> set regs)"
    and cov: "{length h0..<length (builder_heap b)}
           \<subseteq> snd ` set (single_outputs_to_forward b) \<union> snd ` set (vector_outputs_to_forward b)"
    and f1: "map fst (single_outputs_to_forward b)
           = map (fwd_socket nd) (filter (\<lambda>p. param_types (node_function nd) ! p = SingleOutput) pre)"
    and f2: "map fst (vector_outputs_to_forward b)
           = map (fwd_socket nd) (filter (\<lambda>p. param_types (node_function nd) ! p = VectorOutput
                          \<or> param_types (node_function nd) ! p = MutableVector) pre)"
    by (simp_all add: builder_inv_def)
  have 1: "\<exists>news. builder_heap b' = h0 @ news \<and> (\<forall>x \<in> set news. buffer_rows x = n)"
    using news upd by (auto simp: buffer_rows_def)
  have 2: "\<forall>a \<in> snd ` set (single_outputs_to_forward b').
            length h0 \<le> a \<and> a < length (builder_heap b') \<and> is_array_buffer (builder_heap b' ! a)"
  proof
    fix a assume "a \<in> snd ` set (single_outputs_to_forward b')"
    with upd(1) so have "length h0 \<le> a \<and> a < length (builder_heap b) \<and> is_array_buffer (builder_heap b ! a)"
      by auto
    with upd(3) show "length h0 \<le> a \<and> a < length (builder_heap b') \<and> is_array_buffer (builder_heap b' ! a)"
      by (simp add: nth_append)
  qed
  have 3: "distinct (map snd (single_outputs_to_forward b'))"
    using di upd(1) by simp
  have 4: "\<forall>a \<in> snd ` set (vector_outputs_to_forward b').
            a < length (builder_heap b') \<and> is_vector_buffer (builder_heap b' ! a)
            \<and> (a < length h0 \<longrightarrow> a \<in> set regs)"
  proof
    fix a assume "a \<in> snd ` set (vector_outputs_to_forward b')"
    with upd(2) consider "a \<in> snd ` set (vector_outputs_to_forward b)" | "a = length (builder_heap b)"
      by auto
    then show "a < length (builder_heap b') \<and> is_vector_buffer (builder_heap b' ! a)
            \<and> (a < length h0 \<longrightarrow> a \<in> set regs)"
    proof cases
      case 1
      with vo upd(3) show ?thesis by (auto simp: nth_append)
    next
      case 2
      with upd(3) news show ?thesis by (simp add: is_vector_buffer_def)
    qed
  qed
  have 5: "{length h0..<length (builder_heap b')}
           \<subseteq> snd ` set (single_outputs_to_forward b') \<union> snd ` set (vector_outputs_to_forward b')"
  proof
    fix a assume "a \<in> {length h0..<length (builder_heap b')}"
    with upd(3) have "a \<in> {length h0..<length (builder_heap b)} \<or> a = length (builder_heap b)"
      by auto
    with cov upd(1,2) show "a \<in> snd ` set (single_outputs_to_forward b') \<union> snd ` set (vector_outputs_to_forward b')"
      by auto
  qed
  have 6: "map fst (single_outputs_to_forward b')
           = map (fwd_socket nd) (filter (\<lambda>p. param_types (node_function nd) ! p = SingleOutput) (pre @ [p]))"
    using f1 upd(1) pt by simp
  have 7: "map fst (vector_outputs_to_forward b')
           = map (fwd_socket nd) (filter (\<lambda>p. param_types (node_function nd) ! p = VectorOutput
                          \<or> param_types (node_function nd) ! p = MutableVector) (pre @ [p]))"
    using f2 upd(2) pt by simp
  from 1 2 3 4 5 6 7 show ?thesis unfolding builder_inv_def by blast
qed

lemma builder_inv_mutable_vector:
  assumes inv: "builder_inv nd h0 regs n pre b"
    and upd: "single_outputs_to_forward b' = single_outputs_to_forward b"
      "vector_outputs_to_forward b' = vector_outputs_to_forward b @ [(fwd_socket nd p, a)]"
      "builder_heap b' = builder_heap b"
    and a: "a < length h0" "is_vector_buffer (h0 ! a)" "a \<in> set regs"
    and pt: "param_types (node_function nd) ! p = MutableVector"
  shows "builder_inv nd h0 regs n (pre @ [p]) b'"
proof -
  from inv obtain news where news: "builder_heap b = h0 @ news" "\<forall>x \<in> set news. buffer_rows x = n"
    by (auto simp: builder_inv_def)
  from inv have so: "\<forall>a \<in> snd ` set (single_outputs_to_forward b).
            length h0 \<le> a \<and> a < length (builder_heap b) \<and> is_array_buffer (builder_heap b ! a)"
    and di: "distinct (map snd (single_outputs_to_forward b))"
    and vo: "\<forall>a \<in> snd ` set (vector_outputs_to_forward b).
            a < length (builder_heap b) \<and> is_vector_buffer (builder_heap b ! a)
            \<and> (a < length h0 \<longrightarrow> a \<in> set regs)"
    and cov: "{length h0..<length (builder_heap b)}
           \<subseteq> snd ` set (single_outputs_to_forward b) \<union> snd ` set (vector_outputs_to_forward b)"
    and f1: "map fst (single_outputs_to_forward b)
           = map (fwd_socket nd) (filter (\<lambda>p. param_types (node_function nd) ! p = SingleOutput) pre)"
    and f2: "map fst (vector_outputs_to_forward b)
           = map (fwd_socket nd) (filter (\<lambda>p. param_types (node_function nd) ! p = VectorOutput
                          \<or> param_types (node_function nd) ! p = MutableVector) pre)"
    by (simp_all add: builder_inv_def)
  have 1: "\<exists>news. builder_heap b' = h0 @ news \<and> (\<forall>x \<in> set news. buffer_rows x = n)"
    using news upd by auto
  have 2: "\<forall>a \<in> snd ` set (single_outputs_to_forward b').
            length h0 \<le> a \<and> a < length (builder_heap b') \<and> is_array_buffer (builder_heap b' ! a)"
    using so upd by auto
  have 3: "distinct (map snd (single_outputs_to_forward b'))"
    using di upd(1) by simp
  have 4: "\<forall>x \<in> snd ` set (vector_outputs_to_forward b').
            x < length (builder_heap b') \<and> is_vector_buffer (builder_heap b' ! x)
            \<and> (x < length h0 \<longrightarrow> x \<in> set regs)"
  proof
    fix x assume "x \<in> snd ` set (vector_outputs_to_forward b')"
    with upd(2) consider "x \<in> snd ` set (vector_outputs_to_forward b)" | "x = a"
      by auto
    then show "x < length (builder_heap b') \<and> is_vector_buffer (builder_heap b' ! x)
            \<and> (x < length h0 \<longrightarrow> x \<in> set regs)"
    proof cases
      case 1
      with vo upd(3) show ?thesis by auto
    next
      case 2
      with upd(3) news a show ?thesis by (simp add: nth_append)
    qed
  qed
  have 5: "{length h0..<length (builder_heap b')}
           \<subseteq> snd ` set (single_outputs_to_forward b') \<union> snd ` set (vector_outputs_to_forward b')"
    using cov upd by auto
  have 6: "map fst (single_outputs_to_forward b')
           = map (fwd_socket nd) (filter (\<lambda>p. param_types (node_function nd) ! p = SingleOutput) (pre @ [p]))"
    using f1 upd(1) pt by simp
  have 7: "map fst (vector_outputs_to_forward b')
           = map (fwd_socket nd) (filter (\<lambda>p. param_types (node_function nd) ! p = VectorOutput
                          \<or> param_types (node_function nd) ! p = MutableVector) (pre @ [p]))"
    using f2 upd(2) pt by simp
  from 1 2 3 4 5 6 7 show ?thesis unfolding builder_inv_def by blast
qed

lemma add_param_step:
  assumes wf: "wf_node fn n" and fu: "is_function (node_of fn n)"
    and rdy: "\<forall>i \<in> set (inputs (node_of fn n)). values_of s i \<noteq> None"
    and sok: "stored_ok fn msk params s"
    and inv: "builder_inv (node_of fn n) (heap s) (m_vector_arrays (storage s)) (min_array_size msk) pre b"
    and p: "p < length (param_types (node_function (node_of fn n)))"
  shows "\<exists>b'. add_param params (node_of fn n) (min_array_size msk) (storage s) p b = Inr b'
          \<and> builder_inv (node_of fn n) (heap s) (m_vector_arrays (storage s)) (min_array_size msk)
               (pre @ [p]) b'"
proof -
  let ?nd = "node_of fn n"
  let ?pts = "param_types (node_function ?nd)"
  from builder_inv_heapD[OF inv] obtain news where news: "builder_heap b = heap s @ news" by blast
  from p have pt: "param_type (node_function ?nd) p = Inr (?pts ! p)"
    by (simp add: param_type_Inr)
  show ?thesis
  proof (cases "?pts ! p")
    case ReadonlySingleInput
    then have "is_input_param (?pts ! p)" by (simp add: is_input_param_def)
    from ready_input_param[OF wf fu p this] obtain k where k:
      "first_index_opt (input_param_indices ?nd) p = Some k" "k < length (inputs ?nd)"
      "input_param_type fn (inputs ?nd ! k) = ?pts ! p"
      "in_node (input_socket fn (inputs ?nd ! k)) = n" by blast
    from rdy k(2) obtain v where v: "values_of s (inputs ?nd ! k) = Some v" by fastforce
    from stored_for_single_input[OF sok v] k(3,4) fu ReadonlySingleInput
    obtain r where r: "v = VirtualList r" "single_ref_ok (min_array_size msk) params (heap s) r"
      by auto
    from single_ref_ok_values[OF r(2)] news obtain xs
      where xs: "single_values params (builder_heap b) r = Inr xs" by auto
    let ?b' = "b\<lparr>built_params := built_params b @ [ReadonlySingleArg xs]\<rparr>"
    have "add_param params ?nd (min_array_size msk) (storage s) p b = Inr ?b'"
      using pt ReadonlySingleInput k(1,2) v r(1) xs
      by (simp add: add_param_def first_index_def nth_checked_def get_virtual_list_for_input_def)
    moreover have "builder_inv ?nd (heap s) (m_vector_arrays (storage s)) (min_array_size msk) (pre @ [p]) ?b'"
      by (rule builder_inv_keep[OF inv]) (simp_all add: ReadonlySingleInput)
    ultimately show ?thesis by blast
  next
    case ReadonlyVectorInput
    then have "is_input_param (?pts ! p)" by (simp add: is_input_param_def)
    from ready_input_param[OF wf fu p this] obtain k where k:
      "first_index_opt (input_param_indices ?nd) p = Some k" "k < length (inputs ?nd)"
      "input_param_type fn (inputs ?nd ! k) = ?pts ! p"
      "in_node (input_socket fn (inputs ?nd ! k)) = n" by blast
    from rdy k(2) obtain v where v: "values_of s (inputs ?nd ! k) = Some v" by fastforce
    from stored_for_vector_input[OF sok v] k(3,4) fu ReadonlyVectorInput
    obtain r where r: "v = VirtualListList r" "vector_ref_ok (min_array_size msk) params (heap s) r"
      by auto
    from vector_ref_ok_values[OF r(2)] news obtain xs
      where xs: "vector_values params (builder_heap b) r = Inr xs" by auto
    let ?b' = "b\<lparr>built_params := built_params b @ [ReadonlyVectorArg xs]\<rparr>"
    have "add_param params ?nd (min_array_size msk) (storage s) p b = Inr ?b'"
      using pt ReadonlyVectorInput k(1,2) v r(1) xs
      by (simp add: add_param_def first_index_def nth_checked_def get_virtual_list_list_for_input_def)
    moreover have "builder_inv ?nd (heap s) (m_vector_arrays (storage s)) (min_array_size msk) (pre @ [p]) ?b'"
      by (rule builder_inv_keep[OF inv]) (simp_all add: ReadonlyVectorInput)
    ultimately show ?thesis by blast
  next
    case SingleOutput
    then have "is_output_param (?pts ! p)" by (simp add: is_output_param_def)
    from ready_output_param[OF wf fu p this] obtain k where k:
      "first_index_opt (output_param_indices ?nd) p = Some k" "k < length (outputs ?nd)" by blast
    let ?b' = "b\<lparr>built_params := built_params b @ [SingleOutputArg (allocate_array (min_array_size msk))],
                 written_buffers := written_buffers b @ [(length (built_params b), length (builder_heap b))],
                 single_outputs_to_forward :=
                   single_outputs_to_forward b @ [(outputs ?nd ! k, length (builder_heap b))],
                 builder_heap := builder_heap b @ [ArrayBuf (allocate_array (min_array_size msk))]\<rparr>"
    have "add_param params ?nd (min_array_size msk) (storage s) p b = Inr ?b'"
      using pt SingleOutput k
      by (simp add: add_param_def first_index_def nth_checked_def heap_new_def)
    moreover have "builder_inv ?nd (heap s) (m_vector_arrays (storage s)) (min_array_size msk) (pre @ [p]) ?b'"
      by (rule builder_inv_single_output[OF inv, where xs="allocate_array (min_array_size msk)"])
         (simp_all add: SingleOutput fwd_socket_def k allocate_array_def)
    ultimately show ?thesis by blast
  next
    case VectorOutput
    then have "is_output_param (?pts ! p)" by (simp add: is_output_param_def)
    from ready_output_param[OF wf fu p this] obtain k where k:
      "first_index_opt (output_param_indices ?nd) p = Some k" "k < length (outputs ?nd)" by blast
    let ?b' = "b\<lparr>built_params := built_params b @ [VectorOutputArg (GenericVectorArray_new (min_array_size msk))],
                 written_buffers := written_buffers b @ [(length (built_params b), length (builder_heap b))],
                 vector_outputs_to_forward :=
                   vector_outputs_to_forward b @ [(outputs ?nd ! k, length (builder_heap b))],
                 builder_heap := builder_heap b @ [VectorBuf (GenericVectorArray_new (min_array_size msk))]\<rparr>"
    have "add_param params ?nd (min_array_size msk) (storage s) p b = Inr ?b'"
      using pt VectorOutput k
      by (simp add: add_param_def first_index_def nth_checked_def heap_new_def)
    moreover have "builder_inv ?nd (heap s) (m_vector_arrays (storage s)) (min_array_size msk) (pre @ [p]) ?b'"
      by (rule builder_inv_vector_output[OF inv, where xs="GenericVectorArray_new (min_array_size msk)"])
         (simp_all add: VectorOutput fwd_socket_def k GenericVectorArray_new_def)
    ultimately show ?thesis by blast
  next
    case MutableVector
    then have io: "is_input_param (?pts ! p)" "is_output_param (?pts ! p)"
      by (simp_all add: is_input_param_def is_output_param_def)
    from ready_input_param[OF wf fu p io(1)] obtain k where k:
      "first_index_opt (input_param_indices ?nd) p = Some k" "k < length (inputs ?nd)"
      "input_param_type fn (inputs ?nd ! k) = ?pts ! p"
      "in_node (input_socket fn (inputs ?nd ! k)) = n" by blast
    from ready_output_param[OF wf fu p io(2)] obtain ko where ko:
      "first_index_opt (output_param_indices ?nd) p = Some ko" "ko < length (outputs ?nd)" by blast
    from rdy k(2) obtain v where v: "values_of s (inputs ?nd ! k) = Some v" by fastforce
    from stored_for_mutable_input[OF sok v] k(3,4) fu MutableVector
    obtain a where a: "v = VectorArray a" "a < length (heap s)" "is_vector_buffer (heap s ! a)"
      "a \<in> set (m_vector_arrays (storage s))"
      by auto
    from a(2,3) obtain xs where xs: "heap s ! a = VectorBuf xs"
      by (cases "heap s ! a") (auto simp: is_vector_buffer_def)
    with a(2) news have vv: "vector_values params (builder_heap b) (HeapRef a) = Inr xs"
      by (simp add: vector_values_heap_Inr nth_append)
    let ?b' = "b\<lparr>built_params := built_params b @ [MutableVectorArg xs],
                 written_buffers := written_buffers b @ [(length (built_params b), a)],
                 vector_outputs_to_forward := vector_outputs_to_forward b @ [(outputs ?nd ! ko, a)]\<rparr>"
    have "add_param params ?nd (min_array_size msk) (storage s) p b = Inr ?b'"
      using pt MutableVector k(1,2) ko v a(1) vv
      by (simp add: add_param_def first_index_def nth_checked_def get_vector_array_for_input_def)
    moreover have "builder_inv ?nd (heap s) (m_vector_arrays (storage s)) (min_array_size msk) (pre @ [p]) ?b'"
      by (rule builder_inv_mutable_vector[OF inv, where a=a])
         (simp_all add: MutableVector fwd_socket_def ko a)
    ultimately show ?thesis by blast
  qed
qed

lemma build_params:
  assumes wf: "wf_node fn n" and fu: "is_function (node_of fn n)"
    and rdy: "\<forall>i \<in> set (inputs (node_of fn n)). values_of s i \<noteq> None"
    and sok: "stored_ok fn msk params s"
  shows "\<exists>b. for_each (add_param params (node_of fn n) (min_array_size msk) (storage s))
                (param_indices (node_function (node_of fn n))) (new_builder (heap s)) = Inr b
          \<and> builder_inv (node_of fn n) (heap s) (m_vector_arrays (storage s)) (min_array_size msk)
               (param_indices (node_function (node_of fn n))) b"
proof (rule for_each_rule)
  show "builder_inv (node_of fn n) (heap s) (m_vector_arrays (storage s)) (min_array_size msk) []
          (new_builder (heap s))"
    by (rule builder_inv_start)
next
  fix pre p post b
  assume split: "param_indices (node_function (node_of fn n)) = pre @ p # post"
    and inv: "builder_inv (node_of fn n) (heap s) (m_vector_arrays (storage s)) (min_array_size msk) pre b"
  from split have "p < length (param_types (node_function (node_of fn n)))"
    using upt_split[of "length (param_types (node_function (node_of fn n)))" pre p post]
    by (simp add: param_indices_def)
  from add_param_step[OF wf fu rdy sok inv this]
  show "\<exists>b'. add_param params (node_of fn n) (min_array_size msk) (storage s) p b = Inr b'
          \<and> builder_inv (node_of fn n) (heap s) (m_vector_arrays (storage s)) (min_array_size msk)
               (pre @ [p]) b'" .
qed

section \<open>Steps of the forwarding loops\<close>

lemma is_vector_not_array: "is_vector_buffer b = (\<not> is_array_buffer b)"
  by (cases b) (simp_all add: is_vector_buffer_def is_array_buffer_def)

lemma stored_ref_ok_mono:
  assumes "stored_ref_ok n params h regs v" "set regs \<subseteq> set regs'"
  shows "stored_ref_ok n params (h @ news) regs' v"
proof (cases v)
  case (VirtualList r)
  with assms show ?thesis
    by (cases r) (auto simp: stored_ref_ok_def single_ref_ok_def nth_append)
next
  case (VirtualListList r)
  with assms show ?thesis
    by (cases r) (auto simp: stored_ref_ok_def vector_ref_ok_def nth_append)
next
  case (VectorArray a)
  with assms show ?thesis
    by (auto simp: stored_ref_ok_def nth_append)
qed

lemma stored_ref_ok_regs:
  "stored_ref_ok n params h regs v \<Longrightarrow> set regs \<subseteq> set regs' \<Longrightarrow> stored_ref_ok n params h regs' v"
  using stored_ref_ok_mono[of n params h regs v regs' "[]"] by simp

lemma stored_ref_ok_same_shape:
  assumes "stored_ref_ok n params h regs v" "same_shape h h'"
  shows "stored_ref_ok n params h' regs v"
proof (cases v)
  case (VirtualList r)
  with assms show ?thesis
    by (cases r) (auto simp: stored_ref_ok_def single_ref_ok_def same_shape_def)
next
  case (VirtualListList r)
  with assms show ?thesis
    by (cases r) (auto simp: stored_ref_ok_def vector_ref_ok_def same_shape_def is_vector_not_array)
next
  case (VectorArray a)
  with assms show ?thesis
    by (auto simp: stored_ref_ok_def same_shape_def is_vector_not_array)
qed

lemma heap_rows_ok_append:
  "heap_rows_ok msk h \<Longrightarrow> \<forall>b \<in> set news. min_array_size msk \<le> buffer_rows b \<Longrightarrow> heap_rows_ok msk (h @ news)"
  by (auto simp: heap_rows_ok_def)

lemma heap_rows_ok_nth:
  "heap_rows_ok msk h \<Longrightarrow> a < length h \<Longrightarrow> min_array_size msk \<le> buffer_rows (h ! a)"
  by (simp add: heap_rows_ok_def)

lemma heap_rows_ok_same_shape:
  assumes "heap_rows_ok msk h" "same_shape h h'"
  shows "heap_rows_ok msk h'"
  unfolding heap_rows_ok_def
proof
  fix b assume "b \<in> set h'"
  then obtain a where a: "a < length h'" "b = h' ! a" by (auto simp: in_set_conv_nth)
  with assms(2) have "a < length h" "buffer_rows b = buffer_rows (h ! a)"
    by (simp_all add: same_shape_def)
  with assms(1) show "min_array_size msk \<le> buffer_rows b"
    by (simp add: heap_rows_ok_def)
qed

lemma fwd_vals_set:
  assumes inv: "fwd_vals fn msk params s n D t"
    and fresh: "values_of t tg = None"
    and fits: "stored_fits fn tg v"
    and ref: "stored_ref_ok (min_array_size msk) params (heap t) (m_vector_arrays (storage t)) v"
  shows "fwd_vals fn msk params s n (insert tg D) (with_value tg v t)"
proof -
  from inv have i: "invoked t = n" and so: "stored_ok fn msk params t"
    and hr: "heap_rows_ok msk (heap t)" and le: "values_of s \<subseteq>\<^sub>m values_of t"
    and ub: "dom (values_of t) \<subseteq> dom (values_of s) \<union> D"
    and lb: "\<forall>x \<in> D. demandable fn x \<longrightarrow> values_of t x \<noteq> None"
    by (simp_all add: fwd_vals_def)
  have "stored_ok fn msk params (with_value tg v t)"
    using so fits ref by (simp add: stored_ok_def)
  moreover have "values_of t \<subseteq>\<^sub>m values_of (with_value tg v t)"
    using fresh by (auto simp: map_le_def)
  with le have "values_of s \<subseteq>\<^sub>m values_of (with_value tg v t)" by (rule map_le_trans)
  moreover have "dom (values_of (with_value tg v t)) \<subseteq> dom (values_of s) \<union> insert tg D"
    using ub by auto
  moreover have "\<forall>x \<in> insert tg D. demandable fn x \<longrightarrow> values_of (with_value tg v t) x \<noteq> None"
    using lb by simp
  ultimately show ?thesis using i hr by (simp add: fwd_vals_def)
qed

lemma fwd_vals_copy:
  assumes inv: "fwd_vals fn msk params s n D t"
    and fresh: "values_of t tg = None"
    and mu: "is_mutable_input fn tg"
    and rows: "min_array_size msk \<le> length src"
  shows "fwd_vals fn msk params s n (insert tg D) (with_copy tg src t)"
proof -
  from inv have i: "invoked t = n" and so: "stored_ok fn msk params t"
    and hr: "heap_rows_ok msk (heap t)" and le: "values_of s \<subseteq>\<^sub>m values_of t"
    and ub: "dom (values_of t) \<subseteq> dom (values_of s) \<union> D"
    and lb: "\<forall>x \<in> D. demandable fn x \<longrightarrow> values_of t x \<noteq> None"
    by (simp_all add: fwd_vals_def)
  have "stored_ok fn msk params (with_copy tg src t)"
    unfolding stored_ok_def
  proof (intro allI impI)
    fix i v assume iv: "values_of (with_copy tg src t) i = Some v"
    show "stored_fits fn i v \<and> stored_ref_ok (min_array_size msk) params (heap (with_copy tg src t))
             (m_vector_arrays (storage (with_copy tg src t))) v"
    proof (cases "i = tg")
      case True
      with iv have "v = VectorArray (length (heap t))" by simp
      with True mu show ?thesis
        by (simp add: stored_fits_def stored_ref_ok_def is_vector_buffer_def)
    next
      case False
      with iv have "values_of t i = Some v" by simp
      from stored_okD[OF so this] have f: "stored_fits fn i v"
        and r: "stored_ref_ok (min_array_size msk) params (heap t) (m_vector_arrays (storage t)) v"
        by simp_all
      have "set (m_vector_arrays (storage t)) \<subseteq> set (m_vector_arrays (storage t) @ [length (heap t)])"
        by auto
      from stored_ref_ok_mono[OF r this, of "[VectorBuf src]"] f show ?thesis by simp
    qed
  qed
  moreover have "heap_rows_ok msk (heap (with_copy tg src t))"
    using heap_rows_ok_append[OF hr, of "[VectorBuf src]"] rows by (simp add: buffer_rows_def)
  moreover have "values_of t \<subseteq>\<^sub>m values_of (with_copy tg src t)"
    using fresh by (auto simp: map_le_def)
  with le have "values_of s \<subseteq>\<^sub>m values_of (with_copy tg src t)" by (rule map_le_trans)
  moreover have "dom (values_of (with_copy tg src t)) \<subseteq> dom (values_of s) \<union> insert tg D"
    using ub by auto
  moreover have "\<forall>x \<in> insert tg D. demandable fn x \<longrightarrow> values_of (with_copy tg src t) x \<noteq> None"
    using lb by simp
  ultimately show ?thesis using i by (simp add: fwd_vals_def)
qed

lemma fwd_vals_skip:
  assumes "fwd_vals fn msk params s n D t" "\<not> demandable fn tg"
  shows "fwd_vals fn msk params s n (insert tg D) t"
  using assms by (auto simp: fwd_vals_def)

lemma fwd_vals_registries:
  assumes inv: "fwd_vals fn msk params s n D t"
    and st: "m_value_for_inputs st' = values_of t"
      "set (m_vector_arrays (storage t)) \<subseteq> set (m_vector_arrays st')"
  shows "fwd_vals fn msk params s n D (t\<lparr>storage := st'\<rparr>)"
proof -
  from inv have so: "stored_ok fn msk params t" by (simp add: fwd_vals_def)
  have "stored_ok fn msk params (t\<lparr>storage := st'\<rparr>)"
    unfolding stored_ok_def
  proof (intro allI impI)
    fix i v assume "values_of (t\<lparr>storage := st'\<rparr>) i = Some v"
    with st(1) have "values_of t i = Some v" by simp
    from stored_okD[OF so this] stored_ref_ok_regs[OF _ st(2)]
    show "stored_fits fn i v \<and> stored_ref_ok (min_array_size msk) params (heap (t\<lparr>storage := st'\<rparr>))
             (m_vector_arrays (storage (t\<lparr>storage := st'\<rparr>))) v"
      by simp
  qed
  with inv st(1) show ?thesis by (simp add: fwd_vals_def)
qed

lemma fwd_reg_with_value [simp]: "fwd_reg sof vof (with_value tg v t) = fwd_reg sof vof t"
  by (simp add: fwd_reg_def Storage_release_def)

lemma fwd_reg_bound:
  assumes "fwd_reg sof vof t"
  shows "set (Storage_release (storage t)) \<subseteq> {..<length (heap t)}"
    and "snd ` set sof \<subseteq> {..<length (heap t)}"
    and "snd ` set vof \<subseteq> {..<length (heap t)}"
proof -
  from assms have "set (Storage_release (storage t)) \<union> snd ` set sof \<union> snd ` set vof = {..<length (heap t)}"
    by (simp add: fwd_reg_def)
  then show "set (Storage_release (storage t)) \<subseteq> {..<length (heap t)}"
    and "snd ` set sof \<subseteq> {..<length (heap t)}"
    and "snd ` set vof \<subseteq> {..<length (heap t)}"
    by blast+
qed

lemma fwd_reg_copy:
  assumes inv: "fwd_reg sof vof t"
  shows "fwd_reg sof vof (with_copy tg src t)"
proof -
  let ?c = "length (heap t)"
  let ?t = "with_copy tg src t"
  from inv have di: "distinct (Storage_release (storage t))"
    and un: "set (Storage_release (storage t)) \<union> snd ` set sof \<union> snd ` set vof = {..<length (heap t)}"
    and dj: "set (Storage_release (storage t)) \<inter> snd ` set sof = {}"
    and ds: "distinct (map snd sof)"
    and ta: "\<forall>a \<in> set (m_arrays (storage t)). is_array_buffer (heap t ! a)"
    and tv: "\<forall>a \<in> set (m_vector_arrays (storage t)). is_vector_buffer (heap t ! a)"
    and sa: "\<forall>a \<in> snd ` set sof. is_array_buffer (heap t ! a)"
    and sv: "\<forall>a \<in> snd ` set vof. is_vector_buffer (heap t ! a)"
    by (simp_all add: fwd_reg_def)
  note b = fwd_reg_bound[OF inv]
  have rel: "set (Storage_release (storage ?t)) = insert ?c (set (Storage_release (storage t)))"
    by (auto simp: Storage_release_def)
  have cn: "?c \<notin> set (Storage_release (storage t))" "?c \<notin> snd ` set sof" using b by auto
  have old: "heap ?t ! a = heap t ! a" if "a < length (heap t)" for a
    using that by (simp add: nth_append)
  have 1: "distinct (Storage_release (storage ?t))"
    using di cn(1) by (auto simp: Storage_release_def)
  have 2: "set (Storage_release (storage ?t)) \<union> snd ` set sof \<union> snd ` set vof = {..<length (heap ?t)}"
    using un rel by auto
  have 3: "set (Storage_release (storage ?t)) \<inter> snd ` set sof = {}"
    using dj cn(2) rel by auto
  have 5: "\<forall>a \<in> set (m_arrays (storage ?t)). is_array_buffer (heap ?t ! a)"
  proof
    fix a assume a: "a \<in> set (m_arrays (storage ?t))"
    then have "a \<in> set (Storage_release (storage t))" by (simp add: Storage_release_def)
    with b(1) have "a < length (heap t)" by auto
    with old[OF this] ta a show "is_array_buffer (heap ?t ! a)" by simp
  qed
  have 6: "\<forall>a \<in> set (m_vector_arrays (storage ?t)). is_vector_buffer (heap ?t ! a)"
  proof
    fix a assume a: "a \<in> set (m_vector_arrays (storage ?t))"
    show "is_vector_buffer (heap ?t ! a)"
    proof (cases "a = ?c")
      case True
      then show ?thesis by (simp add: is_vector_buffer_def)
    next
      case False
      with a have m: "a \<in> set (m_vector_arrays (storage t))" by simp
      then have "a \<in> set (Storage_release (storage t))" by (simp add: Storage_release_def)
      with b(1) have "a < length (heap t)" by auto
      with old[OF this] tv m show ?thesis by simp
    qed
  qed
  have 7: "\<forall>a \<in> snd ` set sof. is_array_buffer (heap ?t ! a)"
  proof
    fix a assume a: "a \<in> snd ` set sof"
    with b(2) have "a < length (heap t)" by auto
    with old[OF this] sa a show "is_array_buffer (heap ?t ! a)" by auto
  qed
  have 8: "\<forall>a \<in> snd ` set vof. is_vector_buffer (heap ?t ! a)"
  proof
    fix a assume a: "a \<in> snd ` set vof"
    with b(3) have "a < length (heap t)" by auto
    with old[OF this] sv a show "is_vector_buffer (heap ?t ! a)" by auto
  qed
  from 1 2 3 ds 5 6 7 8 show ?thesis unfolding fwd_reg_def by blast
qed

lemma fwd_reg_take_array:
  assumes inv: "fwd_reg ((out, a) # post) vof t"
  shows "fwd_reg post vof (t\<lparr>storage := take_array_ref_ownership a (storage t)\<rparr>)"
proof -
  let ?t = "t\<lparr>storage := take_array_ref_ownership a (storage t)\<rparr>"
  from inv have di: "distinct (Storage_release (storage t))"
    and un: "set (Storage_release (storage t)) \<union> snd ` set ((out, a) # post) \<union> snd ` set vof
               = {..<length (heap t)}"
    and dj: "set (Storage_release (storage t)) \<inter> snd ` set ((out, a) # post) = {}"
    and ds: "distinct (map snd ((out, a) # post))"
    and ta: "\<forall>a \<in> set (m_arrays (storage t)). is_array_buffer (heap t ! a)"
    and tv: "\<forall>a \<in> set (m_vector_arrays (storage t)). is_vector_buffer (heap t ! a)"
    and sa: "\<forall>x \<in> snd ` set ((out, a) # post). is_array_buffer (heap t ! x)"
    and sv: "\<forall>a \<in> snd ` set vof. is_vector_buffer (heap t ! a)"
    by (simp_all add: fwd_reg_def)
  have rel: "set (Storage_release (storage ?t)) = insert a (set (Storage_release (storage t)))"
    by (auto simp: Storage_release_def take_array_ref_ownership_def)
  from dj have an: "a \<notin> set (Storage_release (storage t))" by auto
  have 1: "distinct (Storage_release (storage ?t))"
    using di an by (auto simp: Storage_release_def take_array_ref_ownership_def)
  have 2: "set (Storage_release (storage ?t)) \<union> snd ` set post \<union> snd ` set vof = {..<length (heap ?t)}"
    using un rel by auto
  have 3: "set (Storage_release (storage ?t)) \<inter> snd ` set post = {}"
    using dj ds rel by auto
  have 4: "distinct (map snd post)" using ds by simp
  have 5: "\<forall>x \<in> set (m_arrays (storage ?t)). is_array_buffer (heap ?t ! x)"
    using ta sa by (auto simp: take_array_ref_ownership_def)
  have 6: "\<forall>x \<in> set (m_vector_arrays (storage ?t)). is_vector_buffer (heap ?t ! x)"
    using tv by (simp add: take_array_ref_ownership_def)
  have 7: "\<forall>x \<in> snd ` set post. is_array_buffer (heap ?t ! x)"
    using sa by auto
  have 8: "\<forall>x \<in> snd ` set vof. is_vector_buffer (heap ?t ! x)"
    using sv by auto
  from 1 2 3 4 5 6 7 8 show ?thesis unfolding fwd_reg_def by blast
qed

lemma fwd_reg_take_vector:
  assumes inv: "fwd_reg [] ((out, a) # post) t"
  shows "fwd_reg [] post (t\<lparr>storage := take_vector_array_ownership__not_twice a (storage t)\<rparr>)"
proof (cases "a \<in> set (m_vector_arrays (storage t))")
  case True
  then have st: "take_vector_array_ownership__not_twice a (storage t) = storage t"
    by (simp add: take_vector_array_ownership__not_twice_def)
  from True have "a \<in> set (Storage_release (storage t))" by (simp add: Storage_release_def)
  with inv show ?thesis unfolding st fwd_reg_def by auto
next
  case False
  let ?t = "t\<lparr>storage := take_vector_array_ownership__not_twice a (storage t)\<rparr>"
  from inv have di: "distinct (Storage_release (storage t))"
    and un: "set (Storage_release (storage t)) \<union> snd ` set ((out, a) # post) = {..<length (heap t)}"
    and ta: "\<forall>a \<in> set (m_arrays (storage t)). is_array_buffer (heap t ! a)"
    and tv: "\<forall>a \<in> set (m_vector_arrays (storage t)). is_vector_buffer (heap t ! a)"
    and sv: "\<forall>x \<in> snd ` set ((out, a) # post). is_vector_buffer (heap t ! x)"
    by (simp_all add: fwd_reg_def)
  from sv have "is_vector_buffer (heap t ! a)" by simp
  with ta have "a \<notin> set (m_arrays (storage t))" by (auto simp: is_vector_not_array)
  with False have an: "a \<notin> set (Storage_release (storage t))" by (simp add: Storage_release_def)
  have rel: "set (Storage_release (storage ?t)) = insert a (set (Storage_release (storage t)))"
    using False
    by (auto simp: Storage_release_def take_vector_array_ownership__not_twice_def
        take_vector_array_ownership_def)
  have 1: "distinct (Storage_release (storage ?t))"
    using di an False
    by (auto simp: Storage_release_def take_vector_array_ownership__not_twice_def
        take_vector_array_ownership_def)
  have 2: "set (Storage_release (storage ?t)) \<union> snd ` set [] \<union> snd ` set post = {..<length (heap ?t)}"
    using un rel by auto
  have 5: "\<forall>x \<in> set (m_arrays (storage ?t)). is_array_buffer (heap ?t ! x)"
    using ta False
    by (simp add: take_vector_array_ownership__not_twice_def take_vector_array_ownership_def)
  have 6: "\<forall>x \<in> set (m_vector_arrays (storage ?t)). is_vector_buffer (heap ?t ! x)"
    using tv sv False
    by (auto simp: take_vector_array_ownership__not_twice_def take_vector_array_ownership_def)
  have 8: "\<forall>x \<in> snd ` set post. is_vector_buffer (heap ?t ! x)"
    using sv by auto
  from 1 2 5 6 8 show ?thesis unfolding fwd_reg_def by simp
qed

section \<open>The forwarding loops\<close>

lemma fwd_vals_fresh:
  assumes "fwd_vals fn msk params s n D t" "values_of s tg = None" "tg \<notin> D"
  shows "values_of t tg = None"
proof -
  from assms(1) have "dom (values_of t) \<subseteq> dom (values_of s) \<union> D" by (simp add: fwd_vals_def)
  with assms(2,3) show ?thesis by (auto simp: dom_def)
qed

lemma forward_single_targets:
  assumes vals: "fwd_vals fn msk params s n D t" and reg: "fwd_reg sof vof t"
    and a: "single_ref_ok (min_array_size msk) params (heap t) r"
    and ts: "distinct ts"
      "\<forall>tg \<in> set ts. values_of s tg = None \<and> tg \<notin> D \<and> in_kind fn tg = Single"
  shows "\<exists>t'. for_each (\<lambda>target. in_storage (set_virtual_list_for_input__non_owning target r))
                 ts t = Inr t'
          \<and> fwd_vals fn msk params s n (D \<union> set ts) t' \<and> fwd_reg sof vof t' \<and> heap t' = heap t"
proof -
  let ?I = "\<lambda>pre u. fwd_vals fn msk params s n (D \<union> set pre) u \<and> fwd_reg sof vof u \<and> heap u = heap t"
  have "\<exists>t'. for_each (\<lambda>target. in_storage (set_virtual_list_for_input__non_owning target r))
                 ts t = Inr t' \<and> ?I ts t'"
  proof (rule for_each_rule[where I = ?I])
    show "?I [] t" using vals reg by simp
  next
    fix pre tg post u
    assume split: "ts = pre @ tg # post" and I: "?I pre u"
    from split ts have tg: "values_of s tg = None" "tg \<notin> D" "in_kind fn tg = Single" "tg \<notin> set pre"
      by auto
    from I have v: "fwd_vals fn msk params s n (D \<union> set pre) u" and r: "fwd_reg sof vof u"
      and h: "heap u = heap t" by simp_all
    from tg have "tg \<notin> D \<union> set pre" by simp
    from fwd_vals_fresh[OF v tg(1) this] have fresh: "values_of u tg = None" .
    let ?u = "with_value tg (VirtualList r) u"
    have run: "in_storage (set_virtual_list_for_input__non_owning tg r) u = Inr ?u"
      using fresh by (simp add: in_storage_set_virtual_list_Inr)
    have "fwd_vals fn msk params s n (insert tg (D \<union> set pre)) ?u"
      by (rule fwd_vals_set[OF v fresh])
         (simp_all add: stored_fits_def tg(3) stored_ref_ok_def a h)
    then have "fwd_vals fn msk params s n (D \<union> set (pre @ [tg])) ?u" by simp
    with run r h show "\<exists>t'. in_storage (set_virtual_list_for_input__non_owning tg r) u = Inr t'
        \<and> ?I (pre @ [tg]) t'" by simp
  qed
  then show ?thesis by blast
qed

lemma forward_vector_target_result:
  assumes fresh: "values_of u tg = None"
    and a: "a < length (heap u)" "heap u ! a = VectorBuf src"
    and fu: "is_function (node_of fn (in_node (input_socket fn tg))) \<Longrightarrow>
        in_index (input_socket fn tg) < length (input_param_indices (node_of fn (in_node (input_socket fn tg))))
        \<and> input_param_indices (node_of fn (in_node (input_socket fn tg))) ! in_index (input_socket fn tg)
            < length (param_types (node_function (node_of fn (in_node (input_socket fn tg)))))
        \<and> (input_param_type fn tg = ReadonlyVectorInput \<or> input_param_type fn tg = MutableVector)"
  shows "forward_vector_target fn a tg u =
     Inr (if is_function (node_of fn (in_node (input_socket fn tg))) then
            (if input_param_type fn tg = ReadonlyVectorInput
             then with_value tg (VirtualListList (HeapRef a)) u else with_copy tg src u)
          else if tg \<in> set (m_outputs fn) then with_value tg (VirtualListList (HeapRef a)) u
          else u)"
proof (cases "is_function (node_of fn (in_node (input_socket fn tg)))")
  case False
  with fresh show ?thesis
    by (simp add: forward_vector_target_def in_storage_def set_virtual_list_list_for_input__non_owning_def
        set_value_for_input_def with_value_def)
next
  case True
  note f = fu[OF True]
  show ?thesis
  proof (cases "input_param_type fn tg = ReadonlyVectorInput")
    case ro: True
    with True f fresh show ?thesis
      by (simp add: forward_vector_target_def in_storage_def set_virtual_list_list_for_input__non_owning_def
          set_value_for_input_def with_value_def nth_checked_def param_type_def input_param_type_def)
  next
    case False
    with f have mu: "input_param_type fn tg = MutableVector" by simp
    with True f fresh a show ?thesis
      by (simp add: forward_vector_target_def nth_checked_def param_type_def input_param_type_def
          vector_values_def copy_vector_array_eq heap_new_def
          set_vector_array_for_input__non_owning_def set_value_for_input_def
          take_vector_array_ownership_def with_copy_def with_value_def)
  qed
qed

lemma forward_vector_targets:
  assumes vals: "fwd_vals fn msk params s n D t" and reg: "fwd_reg sof vof t"
    and a: "a < length (heap t)" "is_vector_buffer (heap t ! a)"
    and ts: "distinct ts"
      "\<forall>tg \<in> set ts. values_of s tg = None \<and> tg \<notin> D \<and> vector_consumer_ok fn tg"
  shows "\<exists>t'. for_each (forward_vector_target fn a) ts t = Inr t'
          \<and> fwd_vals fn msk params s n (D \<union> set ts) t' \<and> fwd_reg sof vof t'"
proof -
  from a obtain src where src: "heap t ! a = VectorBuf src"
    by (cases "heap t ! a") (auto simp: is_vector_buffer_def)
  let ?I = "\<lambda>pre u. fwd_vals fn msk params s n (D \<union> set pre) u \<and> fwd_reg sof vof u
              \<and> (\<exists>news. heap u = heap t @ news)"
  have "\<exists>t'. for_each (forward_vector_target fn a) ts t = Inr t' \<and> ?I ts t'"
  proof (rule for_each_rule[where I = ?I])
    show "?I [] t" using vals reg by simp
  next
    fix pre tg post u
    assume split: "ts = pre @ tg # post" and I: "?I pre u"
    from split ts have tg: "values_of s tg = None" "tg \<notin> D" "vector_consumer_ok fn tg" "tg \<notin> set pre"
      by auto
    from I have v: "fwd_vals fn msk params s n (D \<union> set pre) u" and r: "fwd_reg sof vof u"
      by simp_all
    from I obtain news where h: "heap u = heap t @ news" by blast
    from tg have "tg \<notin> D \<union> set pre" by simp
    from fwd_vals_fresh[OF v tg(1) this] have fresh: "values_of u tg = None" .
    from h a src have au: "a < length (heap u)" "heap u ! a = VectorBuf src"
      by (simp_all add: nth_append)
    from v have "heap_rows_ok msk (heap u)" by (simp add: fwd_vals_def)
    from heap_rows_ok_nth[OF this au(1)] au(2) have rows: "min_array_size msk \<le> length src"
      by (simp add: buffer_rows_def)
    let ?nd = "node_of fn (in_node (input_socket fn tg))"
    let ?u = "if is_function ?nd then
            (if input_param_type fn tg = ReadonlyVectorInput
             then with_value tg (VirtualListList (HeapRef a)) u else with_copy tg src u)
          else if tg \<in> set (m_outputs fn) then with_value tg (VirtualListList (HeapRef a)) u
          else u"
    have run: "forward_vector_target fn a tg u = Inr ?u"
      by (rule forward_vector_target_result[OF fresh au]) (use tg(3) in \<open>simp add: vector_consumer_ok_def\<close>)
    have shared: "fwd_vals fn msk params s n (insert tg (D \<union> set pre)) (with_value tg (VirtualListList (HeapRef a)) u)"
      if "\<not> is_mutable_input fn tg"
      by (rule fwd_vals_set[OF v fresh])
         (use tg(3) that au in \<open>simp_all add: stored_fits_def stored_ref_ok_def vector_ref_ok_def
            vector_consumer_ok_def is_vector_buffer_def\<close>)
    have "fwd_vals fn msk params s n (insert tg (D \<union> set pre)) ?u \<and> fwd_reg sof vof ?u
            \<and> (\<exists>news. heap ?u = heap t @ news)"
    proof (cases "is_function ?nd")
      case True
      show ?thesis
      proof (cases "input_param_type fn tg = ReadonlyVectorInput")
        case ro: True
        then have "\<not> is_mutable_input fn tg" by (simp add: is_mutable_input_def)
        from shared[OF this] True ro r h show ?thesis by simp
      next
        case False
        with True tg(3) have "is_mutable_input fn tg"
          by (simp add: vector_consumer_ok_def is_mutable_input_def)
        from fwd_vals_copy[OF v fresh this rows] fwd_reg_copy[OF r, of tg src] True False h
        show ?thesis by simp
      qed
    next
      case False
      then have nm: "\<not> is_mutable_input fn tg" by (simp add: is_mutable_input_def)
      show ?thesis
      proof (cases "tg \<in> set (m_outputs fn)")
        case True
        with shared[OF nm] False r h show ?thesis by simp
      next
        case no: False
        with False have "\<not> demandable fn tg" by (simp add: demandable_def)
        from fwd_vals_skip[OF v this] False no r h show ?thesis by simp
      qed
    qed
    then have "?I (pre @ [tg]) ?u" by simp
    with run show "\<exists>t'. forward_vector_target fn a tg u = Inr t' \<and> ?I (pre @ [tg]) t'" by blast
  qed
  then show ?thesis by blast
qed

lemma tgs_snoc: "tgs fn (outs @ [out]) = tgs fn outs \<union> set (targets (output_socket fn out))"
  by (auto simp: tgs_def)

lemma tgs_Nil [simp]: "tgs fn [] = {}"
  by (simp add: tgs_def)

lemma tgs_append: "tgs fn (xs @ ys) = tgs fn xs \<union> tgs fn ys"
  by (auto simp: tgs_def)

lemma drop_split: "xs = pre @ x # post \<Longrightarrow> drop (length pre) xs = x # post"
  by simp

lemma drop_split_snoc: "xs = pre @ x # post \<Longrightarrow> drop (length (pre @ [x])) xs = post"
  by simp

lemma forward_single_outputs:
  assumes vals: "fwd_vals fn msk params s n D0 t" and reg: "fwd_reg sof vof t"
    and di: "distinct (map fst sof)"
    and ent: "\<forall>out \<in> fst ` set sof. single_targets_ok fn s out"
    and d0: "\<forall>tg \<in> D0. origin (input_socket fn tg) \<notin> fst ` set sof"
  shows "\<exists>t'. for_each (forward_single_output fn) sof t = Inr t'
          \<and> fwd_vals fn msk params s n (D0 \<union> tgs fn (map fst sof)) t' \<and> fwd_reg [] vof t'"
proof -
  let ?I = "\<lambda>pre u. fwd_vals fn msk params s n (D0 \<union> tgs fn (map fst pre)) u
              \<and> fwd_reg (drop (length pre) sof) vof u"
  have "\<exists>t'. for_each (forward_single_output fn) sof t = Inr t' \<and> ?I sof t'"
  proof (rule for_each_rule[where I = ?I])
    show "?I [] t" using vals reg by simp
  next
    fix pre x post u
    assume split: "sof = pre @ x # post" and I: "?I pre u"
    obtain out a where x: "x = (out, a)" by (cases x)
    from I have v: "fwd_vals fn msk params s n (D0 \<union> tgs fn (map fst pre)) u"
      and r: "fwd_reg ((out, a) # post) vof u"
      using split x by simp_all
    let ?u1 = "u\<lparr>storage := take_array_ref_ownership a (storage u)\<rparr>"
    let ?ts = "targets (output_socket fn out)"
    have v1: "fwd_vals fn msk params s n (D0 \<union> tgs fn (map fst pre)) ?u1"
      by (rule fwd_vals_registries[OF v]) (simp_all add: take_array_ref_ownership_def)
    have r1: "fwd_reg post vof ?u1" by (rule fwd_reg_take_array[OF r])
    from fwd_reg_bound(2)[OF r] have al: "a < length (heap ?u1)" by simp
    from r have at: "is_array_buffer (heap ?u1 ! a)" by (simp add: fwd_reg_def)
    from split x ent have ok: "single_targets_ok fn s out" by simp
    from split x di have notpre: "out \<notin> fst ` set pre" by auto
    have tsok: "\<forall>tg \<in> set ?ts. values_of s tg = None \<and> tg \<notin> D0 \<union> tgs fn (map fst pre)
                  \<and> in_kind fn tg = Single"
    proof
      fix tg assume tg: "tg \<in> set ?ts"
      with ok have o: "origin (input_socket fn tg) = out" and f: "values_of s tg = None"
        and k: "in_kind fn tg = Single"
        by (simp_all add: single_targets_ok_def)
      have "tg \<notin> D0" using d0 o split x by auto
      moreover have "tg \<notin> tgs fn (map fst pre)"
      proof
        assume "tg \<in> tgs fn (map fst pre)"
        then obtain out' where o': "out' \<in> fst ` set pre" "tg \<in> set (targets (output_socket fn out'))"
          by (auto simp: tgs_def)
        with split have "out' \<in> fst ` set sof" by auto
        with ent have "single_targets_ok fn s out'" by blast
        with o'(2) have "origin (input_socket fn tg) = out'" by (simp add: single_targets_ok_def)
        with o o'(1) notpre show False by simp
      qed
      ultimately show "values_of s tg = None \<and> tg \<notin> D0 \<union> tgs fn (map fst pre) \<and> in_kind fn tg = Single"
        using f k by simp
    qed
    from ok have dts: "distinct ?ts" by (simp add: single_targets_ok_def)
    from al at have "single_ref_ok (min_array_size msk) params (heap ?u1) (HeapRef a)"
      by (simp add: single_ref_ok_def)
    from forward_single_targets[OF v1 r1 this dts tsok]
    obtain t' where t': "for_each (\<lambda>target. in_storage (set_virtual_list_for_input__non_owning target (HeapRef a)))
                 ?ts ?u1 = Inr t'"
      "fwd_vals fn msk params s n (D0 \<union> tgs fn (map fst pre) \<union> set ?ts) t'" "fwd_reg post vof t'"
      by blast
    have "forward_single_output fn x u = Inr t'"
      using t'(1) x by (simp add: forward_single_output_def)
    moreover have "?I (pre @ [x]) t'"
      using t'(2,3) split x by (simp add: tgs_snoc Un_assoc)
    ultimately show "\<exists>t'. forward_single_output fn x u = Inr t' \<and> ?I (pre @ [x]) t'" by blast
  qed
  then show ?thesis by auto
qed

lemma forward_vector_outputs:
  assumes vals: "fwd_vals fn msk params s n D0 t" and reg: "fwd_reg [] vof t"
    and di: "distinct (map fst vof)"
    and ent: "\<forall>out \<in> fst ` set vof. vector_targets_ok fn s out"
    and d0: "\<forall>tg \<in> D0. origin (input_socket fn tg) \<notin> fst ` set vof"
  shows "\<exists>t'. for_each (forward_vector_output fn) vof t = Inr t'
          \<and> fwd_vals fn msk params s n (D0 \<union> tgs fn (map fst vof)) t' \<and> fwd_reg [] [] t'"
proof -
  let ?I = "\<lambda>pre u. fwd_vals fn msk params s n (D0 \<union> tgs fn (map fst pre)) u
              \<and> fwd_reg [] (drop (length pre) vof) u"
  have "\<exists>t'. for_each (forward_vector_output fn) vof t = Inr t' \<and> ?I vof t'"
  proof (rule for_each_rule[where I = ?I])
    show "?I [] t" using vals reg by simp
  next
    fix pre x post u
    assume split: "vof = pre @ x # post" and I: "?I pre u"
    obtain out a where x: "x = (out, a)" by (cases x)
    from I have v: "fwd_vals fn msk params s n (D0 \<union> tgs fn (map fst pre)) u"
      and r: "fwd_reg [] ((out, a) # post) u"
      using split x by simp_all
    let ?u1 = "u\<lparr>storage := take_vector_array_ownership__not_twice a (storage u)\<rparr>"
    let ?ts = "targets (output_socket fn out)"
    have v1: "fwd_vals fn msk params s n (D0 \<union> tgs fn (map fst pre)) ?u1"
      by (rule fwd_vals_registries[OF v])
         (auto simp: take_vector_array_ownership__not_twice_def take_vector_array_ownership_def)
    have r1: "fwd_reg [] post ?u1" by (rule fwd_reg_take_vector[OF r])
    from fwd_reg_bound(3)[OF r] have al: "a < length (heap ?u1)" by simp
    from r have at: "is_vector_buffer (heap ?u1 ! a)" by (simp add: fwd_reg_def)
    from split x ent have ok: "vector_targets_ok fn s out" by simp
    from split x di have notpre: "out \<notin> fst ` set pre" by auto
    have tsok: "\<forall>tg \<in> set ?ts. values_of s tg = None \<and> tg \<notin> D0 \<union> tgs fn (map fst pre)
                  \<and> vector_consumer_ok fn tg"
    proof
      fix tg assume tg: "tg \<in> set ?ts"
      with ok have o: "origin (input_socket fn tg) = out" and f: "values_of s tg = None"
        and k: "vector_consumer_ok fn tg"
        by (simp_all add: vector_targets_ok_def)
      have "tg \<notin> D0" using d0 o split x by auto
      moreover have "tg \<notin> tgs fn (map fst pre)"
      proof
        assume "tg \<in> tgs fn (map fst pre)"
        then obtain out' where o': "out' \<in> fst ` set pre" "tg \<in> set (targets (output_socket fn out'))"
          by (auto simp: tgs_def)
        with split have "out' \<in> fst ` set vof" by auto
        with ent have "vector_targets_ok fn s out'" by blast
        with o'(2) have "origin (input_socket fn tg) = out'" by (simp add: vector_targets_ok_def)
        with o o'(1) notpre show False by simp
      qed
      ultimately show "values_of s tg = None \<and> tg \<notin> D0 \<union> tgs fn (map fst pre) \<and> vector_consumer_ok fn tg"
        using f k by simp
    qed
    from ok have dts: "distinct ?ts" by (simp add: vector_targets_ok_def)
    from forward_vector_targets[OF v1 r1 al at dts tsok]
    obtain t' where t': "for_each (forward_vector_target fn a) ?ts ?u1 = Inr t'"
      "fwd_vals fn msk params s n (D0 \<union> tgs fn (map fst pre) \<union> set ?ts) t'" "fwd_reg [] post t'"
      by blast
    have "forward_vector_output fn x u = Inr t'"
      using t'(1) x by (simp add: forward_vector_output_def)
    moreover have "?I (pre @ [x]) t'"
      using t'(2,3) split x by (simp add: tgs_snoc Un_assoc)
    ultimately show "\<exists>t'. forward_vector_output fn x u = Inr t' \<and> ?I (pre @ [x]) t'" by blast
  qed
  then show ?thesis by auto
qed

section \<open>The leaf call and the outputs to forward\<close>

lemma same_shape_refl: "same_shape h h"
  by (simp add: same_shape_def)

lemma same_shape_trans: "same_shape h h' \<Longrightarrow> same_shape h' h'' \<Longrightarrow> same_shape h h''"
  by (simp add: same_shape_def)

lemma length_overwrite [simp]: "length (overwrite old new) = length old"
  by (simp add: overwrite_def)

lemma same_shape_update_array:
  "a < length h \<Longrightarrow> h ! a = ArrayBuf old \<Longrightarrow> same_shape h (h[a := ArrayBuf (overwrite old new)])"
  by (simp add: same_shape_def nth_list_update is_array_buffer_def buffer_rows_def)

lemma same_shape_update_vector:
  "a < length h \<Longrightarrow> h ! a = VectorBuf old \<Longrightarrow> same_shape h (h[a := VectorBuf (overwrite old new)])"
  by (simp add: same_shape_def nth_list_update is_array_buffer_def buffer_rows_def)

lemma write_back_same_shape: "same_shape h (write_back results pa h)"
proof (cases pa)
  case (Pair p a)
  show ?thesis
  proof (cases "p < length results \<and> a < length h")
    case False
    with Pair show ?thesis by (auto simp: write_back_def same_shape_refl)
  next
    case True
    then show ?thesis
      using Pair same_shape_update_array[of a h] same_shape_update_vector[of a h]
      by (cases "results ! p"; cases "h ! a") (simp_all add: write_back_def same_shape_refl)
  qed
qed

lemma fold_write_back_same_shape: "same_shape h (fold (write_back results) ws h)"
proof (induction ws arbitrary: h)
  case Nil
  show ?case by (simp add: same_shape_refl)
next
  case (Cons w ws)
  from same_shape_trans[OF write_back_same_shape Cons.IH]
  show ?case by simp
qed

lemma distinct_map_two_filters:
  assumes "distinct xs" "inj_on f {x \<in> set xs. A x \<or> B x}" "\<And>x. \<not> (A x \<and> B x)"
  shows "distinct (map f (filter A xs) @ map f (filter B xs))"
proof -
  have ia: "inj_on f (set (filter A xs))" and ib: "inj_on f (set (filter B xs))"
    using assms(2) by (auto simp: inj_on_def)
  have "f ` set (filter A xs) \<inter> f ` set (filter B xs) = {}"
  proof (rule ccontr)
    assume "f ` set (filter A xs) \<inter> f ` set (filter B xs) \<noteq> {}"
    then obtain x y where xy: "x \<in> set xs" "A x" "y \<in> set xs" "B y" "f x = f y" by auto
    with assms(2) have "x = y" by (auto simp: inj_on_def)
    with xy assms(3) show False by auto
  qed
  with ia ib assms(1) show ?thesis by (simp add: distinct_map)
qed

lemma fwd_socket_writable:
  assumes wf: "wf_node fn n" and fu: "is_function (node_of fn n)"
    and p: "p < length (param_types (node_function (node_of fn n)))"
    and op: "is_output_param (param_types (node_function (node_of fn n)) ! p)"
  shows "\<exists>k < length (outputs (node_of fn n)).
           fwd_socket (node_of fn n) p = outputs (node_of fn n) ! k
           \<and> output_param_indices (node_of fn n) ! k = p
           \<and> out_node (output_socket fn (fwd_socket (node_of fn n) p)) = n
           \<and> out_index (output_socket fn (fwd_socket (node_of fn n) p)) = k
           \<and> fwd_socket (node_of fn n) p < length (output_sockets (network fn))"
proof -
  from ready_output_param[OF wf fu p op] obtain k where k:
    "first_index_opt (output_param_indices (node_of fn n)) p = Some k"
    "k < length (outputs (node_of fn n))" by blast
  from first_index_opt_Some[OF k(1)] have "output_param_indices (node_of fn n) ! k = p" by simp
  with k wf_node_output[OF wf k(2)] show ?thesis by (auto simp: fwd_socket_def)
qed

lemma fwd_socket_inj:
  assumes wf: "wf_node fn n" and fu: "is_function (node_of fn n)"
  shows "inj_on (fwd_socket (node_of fn n))
           {p \<in> set [0..<length (param_types (node_function (node_of fn n)))].
              param_types (node_function (node_of fn n)) ! p = SingleOutput
              \<or> (param_types (node_function (node_of fn n)) ! p = VectorOutput
                 \<or> param_types (node_function (node_of fn n)) ! p = MutableVector)}"
proof (rule inj_onI)
  fix p q
  let ?W = "{p \<in> set [0..<length (param_types (node_function (node_of fn n)))].
              param_types (node_function (node_of fn n)) ! p = SingleOutput
              \<or> (param_types (node_function (node_of fn n)) ! p = VectorOutput
                 \<or> param_types (node_function (node_of fn n)) ! p = MutableVector)}"
  assume p: "p \<in> ?W" and q: "q \<in> ?W"
    and eq: "fwd_socket (node_of fn n) p = fwd_socket (node_of fn n) q"
  from p have pl: "p < length (param_types (node_function (node_of fn n)))"
    and po: "is_output_param (param_types (node_function (node_of fn n)) ! p)"
    by (auto simp: is_output_param_def)
  from q have ql: "q < length (param_types (node_function (node_of fn n)))"
    and qo: "is_output_param (param_types (node_function (node_of fn n)) ! q)"
    by (auto simp: is_output_param_def)
  from fwd_socket_writable[OF wf fu pl po] obtain k where
    k: "output_param_indices (node_of fn n) ! k = p"
       "out_index (output_socket fn (fwd_socket (node_of fn n) p)) = k" by blast
  from fwd_socket_writable[OF wf fu ql qo] obtain k' where
    k': "output_param_indices (node_of fn n) ! k' = q"
        "out_index (output_socket fn (fwd_socket (node_of fn n) q)) = k'" by blast
  from k(2) k'(2) eq have "k = k'" by simp
  with k(1) k'(1) show "p = q" by simp
qed

text \<open>The outputs to forward after the parameter loop are the outputs of the node, each once.\<close>

lemma forwarded_sockets:
  assumes wf: "wf_node fn n" and fu: "is_function (node_of fn n)"
    and inv: "builder_inv (node_of fn n) h0 regs rows (param_indices (node_function (node_of fn n))) b"
  shows "distinct (map fst (single_outputs_to_forward b) @ map fst (vector_outputs_to_forward b))"
    and "\<forall>out \<in> fst ` set (single_outputs_to_forward b).
           out < length (output_sockets (network fn)) \<and> out_node (output_socket fn out) = n
           \<and> output_param_type fn out = SingleOutput"
    and "\<forall>out \<in> fst ` set (vector_outputs_to_forward b).
           out < length (output_sockets (network fn)) \<and> out_node (output_socket fn out) = n
           \<and> output_param_type fn out \<noteq> SingleOutput"
    and "set (outputs (node_of fn n))
           \<subseteq> fst ` set (single_outputs_to_forward b) \<union> fst ` set (vector_outputs_to_forward b)"
proof -
  let ?nd = "node_of fn n"
  let ?pts = "param_types (node_function ?nd)"
  let ?P = "[0..<length ?pts]"
  let ?A = "\<lambda>p. ?pts ! p = SingleOutput"
  let ?B = "\<lambda>p. ?pts ! p = VectorOutput \<or> ?pts ! p = MutableVector"
  from inv have f1: "map fst (single_outputs_to_forward b) = map (fwd_socket ?nd) (filter ?A ?P)"
    and f2: "map fst (vector_outputs_to_forward b) = map (fwd_socket ?nd) (filter ?B ?P)"
    by (simp_all add: builder_inv_def param_indices_def)
  have s1: "fst ` set (single_outputs_to_forward b) = fwd_socket ?nd ` {p. p < length ?pts \<and> ?A p}"
    using arg_cong[OF f1, of set] by auto
  have s2: "fst ` set (vector_outputs_to_forward b) = fwd_socket ?nd ` {p. p < length ?pts \<and> ?B p}"
    using arg_cong[OF f2, of set] by auto
  show "distinct (map fst (single_outputs_to_forward b) @ map fst (vector_outputs_to_forward b))"
    unfolding f1 f2
    by (rule distinct_map_two_filters) (use fwd_socket_inj[OF wf fu] in auto)
  have sock: "fwd_socket ?nd p < length (output_sockets (network fn))
       \<and> out_node (output_socket fn (fwd_socket ?nd p)) = n
       \<and> output_param_type fn (fwd_socket ?nd p) = ?pts ! p"
    if "p < length ?pts" "is_output_param (?pts ! p)" for p
  proof -
    from fwd_socket_writable[OF wf fu that] obtain k where
      "output_param_indices ?nd ! k = p"
      "out_node (output_socket fn (fwd_socket ?nd p)) = n"
      "out_index (output_socket fn (fwd_socket ?nd p)) = k"
      "fwd_socket ?nd p < length (output_sockets (network fn))" by blast
    then show ?thesis by (simp add: output_param_type_def)
  qed
  show "\<forall>out \<in> fst ` set (single_outputs_to_forward b).
           out < length (output_sockets (network fn)) \<and> out_node (output_socket fn out) = n
           \<and> output_param_type fn out = SingleOutput"
    unfolding s1 using sock by (auto simp: is_output_param_def)
  show "\<forall>out \<in> fst ` set (vector_outputs_to_forward b).
           out < length (output_sockets (network fn)) \<and> out_node (output_socket fn out) = n
           \<and> output_param_type fn out \<noteq> SingleOutput"
    unfolding s2 using sock by (auto simp: is_output_param_def)
  show "set (outputs ?nd)
           \<subseteq> fst ` set (single_outputs_to_forward b) \<union> fst ` set (vector_outputs_to_forward b)"
  proof
    fix out assume "out \<in> set (outputs ?nd)"
    then obtain k where k: "k < length (outputs ?nd)" "out = outputs ?nd ! k"
      by (auto simp: in_set_conv_nth)
    let ?p = "output_param_indices ?nd ! k"
    from k(1) wf_node_function(2)[OF wf fu] have mem: "?p \<in> set (output_param_indices ?nd)" by simp
    from wf_node_output_param[OF wf fu mem] have pl: "?p < length ?pts" and po: "is_output_param (?pts ! ?p)"
      by simp_all
    from k(1) wf_node_function(2,4)[OF wf fu]
    have "first_index_opt (output_param_indices ?nd) ?p = Some k"
      by (simp add: first_index_opt_nth)
    then have "fwd_socket ?nd ?p = out" using k(2) by (simp add: fwd_socket_def)
    moreover from po have "?A ?p \<or> ?B ?p" by (auto simp: is_output_param_def)
    ultimately show "out \<in> fst ` set (single_outputs_to_forward b) \<union> fst ` set (vector_outputs_to_forward b)"
      unfolding s1 s2 using pl by blast
  qed
qed

section \<open>Invoking a ready node keeps the state well-formed\<close>

lemma vector_consumer_okI:
  assumes wf: "wf_network fn" and tg: "tg < length (input_sockets (network fn))"
    and k: "in_kind fn tg = Vector"
  shows "vector_consumer_ok fn tg"
proof -
  let ?n = "in_node (input_socket fn tg)"
  let ?nd = "node_of fn ?n"
  note ws = wf_input_socketD[OF wf_network_input_socket[OF wf tg]]
  have "in_index (input_socket fn tg) < length (input_param_indices ?nd)
        \<and> input_param_indices ?nd ! in_index (input_socket fn tg) < length (param_types (node_function ?nd))
        \<and> (input_param_type fn tg = ReadonlyVectorInput \<or> input_param_type fn tg = MutableVector)"
    if fu: "is_function ?nd"
  proof -
    from wf_network_node[OF wf ws(1)] have wn: "wf_node fn ?n" .
    from wf_node_function(1)[OF wn fu] ws(2)
    have il: "in_index (input_socket fn tg) < length (input_param_indices ?nd)" by simp
    then have "input_param_indices ?nd ! in_index (input_socket fn tg) \<in> set (input_param_indices ?nd)"
      by simp
    from wf_node_input_param[OF wn fu this]
    have pl: "input_param_indices ?nd ! in_index (input_socket fn tg) < length (param_types (node_function ?nd))"
      and ip: "is_input_param (input_param_type fn tg)"
      by (simp_all add: input_param_type_def)
    from k fu have "input_param_type fn tg \<noteq> ReadonlySingleInput"
      by (auto simp: in_kind_def split: if_splits)
    with ip have "input_param_type fn tg = ReadonlyVectorInput \<or> input_param_type fn tg = MutableVector"
      by (auto simp: is_input_param_def)
    with il pl show ?thesis by simp
  qed
  with k show ?thesis by (simp add: vector_consumer_ok_def)
qed

lemma computed_okD:
  assumes "computed_ok fn s"
  shows "values_of s i \<noteq> None \<Longrightarrow> i < length (input_sockets (network fn)) \<and> sourced fn s i"
    and "i < length (input_sockets (network fn)) \<Longrightarrow> sourced fn s i \<Longrightarrow> demandable fn i
           \<Longrightarrow> values_of s i \<noteq> None"
  using assms unfolding computed_ok_def by blast+

lemma targets_of_uninvoked_output:
  assumes wf: "wf_network fn" and co: "computed_ok fn s"
    and out: "out < length (output_sockets (network fn))"
    and fu: "is_function (node_of fn (out_node (output_socket fn out)))"
    and ni: "out_node (output_socket fn out) \<notin> set (invoked s)"
  shows "distinct (targets (output_socket fn out))"
    and "\<forall>tg \<in> set (targets (output_socket fn out)).
           tg < length (input_sockets (network fn)) \<and> origin (input_socket fn tg) = out
           \<and> values_of s tg = None \<and> in_kind fn tg = out_kind fn out"
proof -
  note wo = wf_network_output_socket[OF wf out]
  from wf_output_socketD(4)[OF wo] show "distinct (targets (output_socket fn out))" .
  show "\<forall>tg \<in> set (targets (output_socket fn out)).
           tg < length (input_sockets (network fn)) \<and> origin (input_socket fn tg) = out
           \<and> values_of s tg = None \<and> in_kind fn tg = out_kind fn out"
  proof
    fix tg assume "tg \<in> set (targets (output_socket fn out))"
    from wf_output_socket_target[OF wo this]
    have tl: "tg < length (input_sockets (network fn))" and o: "origin (input_socket fn tg) = out"
      by simp_all
    from wf_input_socketD(6)[OF wf_network_input_socket[OF wf tl]] o
    have k: "in_kind fn tg = out_kind fn out" by simp
    have "values_of s tg = None"
    proof (rule ccontr)
      assume "values_of s tg \<noteq> None"
      from computed_okD(1)[OF co this] have "sourced fn s tg" by simp
      with o ni have "out \<in> set (m_inputs fn)" by (simp add: sourced_def)
      from wf_network_m_inputs[OF wf this] fu show False by simp
    qed
    with tl o k show "tg < length (input_sockets (network fn)) \<and> origin (input_socket fn tg) = out
           \<and> values_of s tg = None \<and> in_kind fn tg = out_kind fn out" by simp
  qed
qed

lemma stored_ok_initial_forward:
  assumes so: "stored_ok fn msk params s" and sh: "same_shape (heap s @ news) h"
    and inv: "invoked s1 = inv'" "storage s1 = storage s" "heap s1 = h"
  shows "stored_ok fn msk params s1"
  unfolding stored_ok_def
proof (intro allI impI)
  fix i v assume "values_of s1 i = Some v"
  with inv have "values_of s i = Some v" by simp
  from stored_okD[OF so this] have f: "stored_fits fn i v"
    and r: "stored_ref_ok (min_array_size msk) params (heap s) (m_vector_arrays (storage s)) v"
    by simp_all
  from stored_ref_ok_mono[OF r subset_refl, of news]
  have "stored_ref_ok (min_array_size msk) params (heap s @ news) (m_vector_arrays (storage s)) v" .
  from stored_ref_ok_same_shape[OF this sh] f inv
  show "stored_fits fn i v
        \<and> stored_ref_ok (min_array_size msk) params (heap s1) (m_vector_arrays (storage s1)) v"
    by simp
qed

lemma map_le_dom_Some: "m \<subseteq>\<^sub>m m' \<Longrightarrow> m x \<noteq> None \<Longrightarrow> m' x \<noteq> None"
  by (auto simp: map_le_def dom_def)

lemma tgs_mem: "out \<in> set outs \<Longrightarrow> tg \<in> set (targets (output_socket fn out)) \<Longrightarrow> tg \<in> tgs fn outs"
  by (auto simp: tgs_def)

lemma compute_and_forward_outputs_ok:
  assumes wf: "wf_network fn" and ok: "state_ok fn msk params s"
    and rdy: "node_ready fn s n" and ni: "n \<notin> set (invoked s)"
  shows "\<exists>s'. compute_and_forward_outputs fn msk params n s = Inr s'
          \<and> state_ok fn msk params s' \<and> invoked s' = invoked s @ [n]
          \<and> values_of s \<subseteq>\<^sub>m values_of s'"
proof -
  let ?nd = "node_of fn n"
  let ?f = "node_function ?nd"
  let ?rows = "min_array_size msk"
  from rdy have nl: "n < length (nodes (network fn))" and fu: "is_function ?nd"
    and inp: "\<forall>i \<in> set (inputs ?nd). values_of s i \<noteq> None"
    by (simp_all add: node_ready_def)
  from wf_network_node[OF wf nl] have wn: "wf_node fn n" .
  from ok have so: "stored_ok fn msk params s" and hr: "heap_rows_ok msk (heap s)"
    and co: "computed_ok fn s" and io: "invoked_ok fn s" and ro: "registry_ok s"
    by (simp_all add: state_ok_def)
  from build_params[OF wn fu inp so] obtain b where
    b: "for_each (add_param params ?nd ?rows (storage s)) (param_indices ?f) (new_builder (heap s)) = Inr b"
    and binv: "builder_inv ?nd (heap s) (m_vector_arrays (storage s)) ?rows (param_indices ?f) b"
    by blast
  let ?sof = "single_outputs_to_forward b"
  let ?vof = "vector_outputs_to_forward b"
  define h where "h = fold (write_back (mf_call ?f msk (built_params b))) (written_buffers b) (builder_heap b)"
  define s1 where "s1 = s\<lparr>heap := h, invoked := invoked s @ [n]\<rparr>"
  from builder_inv_heapD[OF binv] obtain news where
    news: "builder_heap b = heap s @ news" "\<forall>x \<in> set news. buffer_rows x = ?rows" by blast
  have sh: "same_shape (heap s @ news) h"
    unfolding h_def news(1)[symmetric] by (rule fold_write_back_same_shape)
  then have hl: "length h = length (builder_heap b)" by (simp add: same_shape_def news(1))
  have shape: "is_array_buffer (h ! a) = is_array_buffer (builder_heap b ! a)" if "a < length (builder_heap b)" for a
    using sh that by (simp add: same_shape_def news(1))
  from binv have bso: "\<forall>a \<in> snd ` set ?sof.
            length (heap s) \<le> a \<and> a < length (builder_heap b) \<and> is_array_buffer (builder_heap b ! a)"
    and bdi: "distinct (map snd ?sof)"
    and bvo: "\<forall>a \<in> snd ` set ?vof. a < length (builder_heap b) \<and> is_vector_buffer (builder_heap b ! a)"
    and bcov: "{length (heap s)..<length (builder_heap b)} \<subseteq> snd ` set ?sof \<union> snd ` set ?vof"
    by (simp_all add: builder_inv_def)
  from ro have rdi: "distinct (Storage_release (storage s))"
    and rset: "set (Storage_release (storage s)) = {..<length (heap s)}"
    and rta: "\<forall>a \<in> set (m_arrays (storage s)). is_array_buffer (heap s ! a)"
    and rtv: "\<forall>a \<in> set (m_vector_arrays (storage s)). is_vector_buffer (heap s ! a)"
    by (simp_all add: registry_ok_def)
  have vals1: "fwd_vals fn msk params s (invoked s @ [n]) {} s1"
  proof -
    have "stored_ok fn msk params s1"
      by (rule stored_ok_initial_forward[OF so sh]) (simp_all add: s1_def)
    moreover have "heap_rows_ok msk (heap s1)"
    proof -
      from news(2) have "\<forall>b \<in> set news. ?rows \<le> buffer_rows b" by simp
      from heap_rows_ok_same_shape[OF heap_rows_ok_append[OF hr this] sh]
      show ?thesis by (simp add: s1_def)
    qed
    ultimately show ?thesis by (simp add: fwd_vals_def s1_def)
  qed
  have reg1: "fwd_reg ?sof ?vof s1"
  proof -
    have old: "is_array_buffer (h ! a) = is_array_buffer (heap s ! a)" if "a < length (heap s)" for a
      using shape[of a] that news(1) by (simp add: nth_append)
    have 2: "set (Storage_release (storage s1)) \<union> snd ` set ?sof \<union> snd ` set ?vof = {..<length (heap s1)}"
    proof
      show "set (Storage_release (storage s1)) \<union> snd ` set ?sof \<union> snd ` set ?vof \<subseteq> {..<length (heap s1)}"
        using rset bso bvo hl news(1) by (auto simp: s1_def)
      show "{..<length (heap s1)} \<subseteq> set (Storage_release (storage s1)) \<union> snd ` set ?sof \<union> snd ` set ?vof"
      proof
        fix x assume "x \<in> {..<length (heap s1)}"
        then have x: "x < length (builder_heap b)" by (simp add: s1_def hl)
        show "x \<in> set (Storage_release (storage s1)) \<union> snd ` set ?sof \<union> snd ` set ?vof"
        proof (cases "x < length (heap s)")
          case True
          with rset show ?thesis by (simp add: s1_def)
        next
          case False
          with x have "x \<in> {length (heap s)..<length (builder_heap b)}" by simp
          with bcov show ?thesis by blast
        qed
      qed
    qed
    have 3: "set (Storage_release (storage s1)) \<inter> snd ` set ?sof = {}"
      using rset bso by (auto simp: s1_def)
    have 5: "\<forall>a \<in> set (m_arrays (storage s1)). is_array_buffer (heap s1 ! a)"
    proof
      fix a assume a: "a \<in> set (m_arrays (storage s1))"
      then have "a \<in> set (Storage_release (storage s))" by (simp add: s1_def Storage_release_def)
      with rset have "a < length (heap s)" by simp
      from old[OF this] rta a show "is_array_buffer (heap s1 ! a)" by (simp add: s1_def)
    qed
    have 6: "\<forall>a \<in> set (m_vector_arrays (storage s1)). is_vector_buffer (heap s1 ! a)"
    proof
      fix a assume a: "a \<in> set (m_vector_arrays (storage s1))"
      then have "a \<in> set (Storage_release (storage s))" by (simp add: s1_def Storage_release_def)
      with rset have "a < length (heap s)" by simp
      from old[OF this] rtv a show "is_vector_buffer (heap s1 ! a)"
        by (simp add: s1_def is_vector_not_array)
    qed
    have 7: "\<forall>a \<in> snd ` set ?sof. is_array_buffer (heap s1 ! a)"
    proof
      fix a assume "a \<in> snd ` set ?sof"
      with bso have "a < length (builder_heap b)" "is_array_buffer (builder_heap b ! a)" by auto
      with shape[of a] show "is_array_buffer (heap s1 ! a)" by (simp add: s1_def)
    qed
    have 8: "\<forall>a \<in> snd ` set ?vof. is_vector_buffer (heap s1 ! a)"
    proof
      fix a assume "a \<in> snd ` set ?vof"
      with bvo have "a < length (builder_heap b)" "is_vector_buffer (builder_heap b ! a)" by auto
      with shape[of a] show "is_vector_buffer (heap s1 ! a)" by (simp add: s1_def is_vector_not_array)
    qed
    have 1: "distinct (Storage_release (storage s1))" using rdi by (simp add: s1_def)
    from 1 2 3 bdi 5 6 7 8 show ?thesis unfolding fwd_reg_def by blast
  qed
  note fs = forwarded_sockets[OF wn fu binv]
  have out_facts: "distinct (targets (output_socket fn out))
      \<and> (\<forall>tg \<in> set (targets (output_socket fn out)).
           tg < length (input_sockets (network fn)) \<and> origin (input_socket fn tg) = out
           \<and> values_of s tg = None \<and> in_kind fn tg = out_kind fn out)"
    if "out < length (output_sockets (network fn))" "out_node (output_socket fn out) = n" for out
    using targets_of_uninvoked_output[OF wf co that(1)] that(2) fu ni by simp
  have ent1: "\<forall>out \<in> fst ` set ?sof. single_targets_ok fn s out"
  proof
    fix out assume "out \<in> fst ` set ?sof"
    with fs(2) have o: "out < length (output_sockets (network fn))" "out_node (output_socket fn out) = n"
      "output_param_type fn out = SingleOutput" by auto
    then have "out_kind fn out = Single" using fu by (simp add: out_kind_def)
    with out_facts[OF o(1,2)] show "single_targets_ok fn s out"
      by (simp add: single_targets_ok_def)
  qed
  have ent2: "\<forall>out \<in> fst ` set ?vof. vector_targets_ok fn s out"
  proof
    fix out assume "out \<in> fst ` set ?vof"
    with fs(3) have o: "out < length (output_sockets (network fn))" "out_node (output_socket fn out) = n"
      "output_param_type fn out \<noteq> SingleOutput" by auto
    then have "out_kind fn out = Vector" using fu by (simp add: out_kind_def)
    with out_facts[OF o(1,2)] vector_consumer_okI[OF wf] show "vector_targets_ok fn s out"
      by (simp add: vector_targets_ok_def)
  qed
  from fs(1) have d1: "distinct (map fst ?sof)" and d2: "distinct (map fst ?vof)"
    and dj: "fst ` set ?sof \<inter> fst ` set ?vof = {}" by auto
  from forward_single_outputs[OF vals1 reg1 d1 ent1] obtain t1 where
    t1: "for_each (forward_single_output fn) ?sof s1 = Inr t1"
    and v1: "fwd_vals fn msk params s (invoked s @ [n]) ({} \<union> tgs fn (map fst ?sof)) t1"
    and r1: "fwd_reg [] ?vof t1" by auto
  have d0: "\<forall>tg \<in> {} \<union> tgs fn (map fst ?sof). origin (input_socket fn tg) \<notin> fst ` set ?vof"
  proof
    fix tg assume "tg \<in> {} \<union> tgs fn (map fst ?sof)"
    then obtain out where o: "out \<in> fst ` set ?sof" "tg \<in> set (targets (output_socket fn out))"
      by (auto simp: tgs_def)
    with ent1 have "single_targets_ok fn s out" by blast
    with o(2) have "origin (input_socket fn tg) = out" by (simp add: single_targets_ok_def)
    with o(1) dj show "origin (input_socket fn tg) \<notin> fst ` set ?vof" by auto
  qed
  from forward_vector_outputs[OF v1 r1 d2 ent2 d0] obtain t2 where
    t2: "for_each (forward_vector_output fn) ?vof t1 = Inr t2"
    and v2: "fwd_vals fn msk params s (invoked s @ [n]) ({} \<union> tgs fn (map fst ?sof) \<union> tgs fn (map fst ?vof)) t2"
    and r2: "fwd_reg [] [] t2" by blast
  have run: "compute_and_forward_outputs fn msk params n s = Inr t2"
    using b t1 t2 by (simp add: compute_and_forward_outputs_def Let_def h_def s1_def)
  let ?D = "{} \<union> tgs fn (map fst ?sof) \<union> tgs fn (map fst ?vof)"
  from v2 have i2: "invoked t2 = invoked s @ [n]" and so2: "stored_ok fn msk params t2"
    and hr2: "heap_rows_ok msk (heap t2)" and le2: "values_of s \<subseteq>\<^sub>m values_of t2"
    and ub2: "dom (values_of t2) \<subseteq> dom (values_of s) \<union> ?D"
    and lb2: "\<forall>tg \<in> ?D. demandable fn tg \<longrightarrow> values_of t2 tg \<noteq> None"
    by (simp_all add: fwd_vals_def)
  have reg2: "registry_ok t2" using r2 by (simp add: fwd_reg_def registry_ok_def)
  have inv2: "invoked_ok fn t2" using io i2 ni nl fu by (auto simp: invoked_ok_def)
  have inD: "tg < length (input_sockets (network fn)) \<and> sourced fn t2 tg" if "tg \<in> ?D" for tg
  proof -
    from that obtain out where o: "out \<in> fst ` set ?sof \<union> fst ` set ?vof"
      "tg \<in> set (targets (output_socket fn out))" by (auto simp: tgs_def)
    with fs(2,3) have "out < length (output_sockets (network fn))" "out_node (output_socket fn out) = n"
      by auto
    from out_facts[OF this] o(2) this(2) i2 show ?thesis by (simp add: sourced_def)
  qed
  have co2: "computed_ok fn t2"
    unfolding computed_ok_def
  proof (intro allI)
    fix i
    have c1: "i < length (input_sockets (network fn)) \<and> sourced fn t2 i" if "values_of t2 i \<noteq> None"
    proof -
    from that ub2 consider "values_of s i \<noteq> None" | "i \<in> ?D" by (auto simp: dom_def)
    then show "i < length (input_sockets (network fn)) \<and> sourced fn t2 i"
    proof cases
      case 1
      from computed_okD(1)[OF co this] i2 show ?thesis by (auto simp: sourced_def)
    next
      case 2
      then show ?thesis by (rule inD)
    qed
    qed
    have c2: "values_of t2 i \<noteq> None"
      if a: "i < length (input_sockets (network fn)) \<and> sourced fn t2 i \<and> demandable fn i"
    proof (cases "sourced fn s i")
      case True
      with a computed_okD(2)[OF co] have "values_of s i \<noteq> None" by simp
      with le2 show ?thesis by (rule map_le_dom_Some)
    next
      case False
      with a i2 have on: "out_node (output_socket fn (origin (input_socket fn i))) = n"
        by (auto simp: sourced_def)
      let ?o = "origin (input_socket fn i)"
      from a have il: "i < length (input_sockets (network fn))" by simp
      note wi = wf_input_socketD[OF wf_network_input_socket[OF wf il]]
      note wo = wf_output_socketD[OF wf_network_output_socket[OF wf wi(4)]]
      from wo(2,3) on have "?o \<in> set (outputs ?nd)" by (metis nth_mem)
      with fs(4) have "?o \<in> fst ` set ?sof \<union> fst ` set ?vof" by blast
      then have "?o \<in> set (map fst ?sof) \<or> ?o \<in> set (map fst ?vof)" by simp
      with wi(5) have "i \<in> ?D" using tgs_mem[of ?o _ i fn] by blast
      with lb2 a show ?thesis by simp
    qed
    from c1 c2 show "(values_of t2 i \<noteq> None \<longrightarrow> i < length (input_sockets (network fn)) \<and> sourced fn t2 i)
        \<and> (i < length (input_sockets (network fn)) \<and> sourced fn t2 i \<and> demandable fn i
             \<longrightarrow> values_of t2 i \<noteq> None)" by blast
  qed
  from so2 hr2 co2 inv2 reg2 have "state_ok fn msk params t2" by (simp add: state_ok_def)
  with run i2 le2 show ?thesis by blast
qed

section \<open>Binding the network inputs keeps the state well-formed\<close>

lemma bind_vector_input_target_result:
  assumes fresh: "values_of u tg = None"
    and p: "j < length params" "params ! j = ReadonlyVectorArg src"
    and fu: "is_function (node_of fn (in_node (input_socket fn tg))) \<Longrightarrow>
        in_index (input_socket fn tg) < length (input_param_indices (node_of fn (in_node (input_socket fn tg))))
        \<and> input_param_indices (node_of fn (in_node (input_socket fn tg))) ! in_index (input_socket fn tg)
            < length (param_types (node_function (node_of fn (in_node (input_socket fn tg)))))
        \<and> (input_param_type fn tg = ReadonlyVectorInput \<or> input_param_type fn tg = MutableVector)"
  shows "bind_vector_input_target fn params (ParamRef j) tg u =
     Inr (if is_function (node_of fn (in_node (input_socket fn tg)))
            \<and> input_param_type fn tg \<noteq> ReadonlyVectorInput
          then with_copy tg src u else with_value tg (VirtualListList (ParamRef j)) u)"
proof (cases "is_function (node_of fn (in_node (input_socket fn tg)))")
  case False
  with fresh show ?thesis
    by (simp add: bind_vector_input_target_def in_storage_def set_virtual_list_list_for_input__non_owning_def
        set_value_for_input_def with_value_def)
next
  case True
  note f = fu[OF True]
  show ?thesis
  proof (cases "input_param_type fn tg = ReadonlyVectorInput")
    case ro: True
    with True f fresh show ?thesis
      by (simp add: bind_vector_input_target_def in_storage_def set_virtual_list_list_for_input__non_owning_def
          set_value_for_input_def with_value_def nth_checked_def param_type_def input_param_type_def)
  next
    case False
    with f have mu: "input_param_type fn tg = MutableVector" by simp
    with True f fresh p show ?thesis
      by (simp add: bind_vector_input_target_def nth_checked_def param_type_def input_param_type_def
          vector_values_def copy_vector_array_eq heap_new_def
          set_vector_array_for_input__non_owning_def set_value_for_input_def
          take_vector_array_ownership_def with_copy_def with_value_def)
  qed
qed

lemma bind_vector_targets:
  assumes vals: "fwd_vals fn msk params s iv D t" and reg: "fwd_reg sof vof t"
    and p: "j < length params" "params ! j = ReadonlyVectorArg src" "min_array_size msk \<le> length src"
    and ts: "distinct ts"
      "\<forall>tg \<in> set ts. values_of s tg = None \<and> tg \<notin> D \<and> vector_consumer_ok fn tg"
  shows "\<exists>t'. for_each (bind_vector_input_target fn params (ParamRef j)) ts t = Inr t'
          \<and> fwd_vals fn msk params s iv (D \<union> set ts) t' \<and> fwd_reg sof vof t'"
proof -
  let ?I = "\<lambda>pre u. fwd_vals fn msk params s iv (D \<union> set pre) u \<and> fwd_reg sof vof u"
  have "\<exists>t'. for_each (bind_vector_input_target fn params (ParamRef j)) ts t = Inr t' \<and> ?I ts t'"
  proof (rule for_each_rule[where I = ?I])
    show "?I [] t" using vals reg by simp
  next
    fix pre tg post u
    assume split: "ts = pre @ tg # post" and I: "?I pre u"
    from split ts have tg: "values_of s tg = None" "tg \<notin> D" "vector_consumer_ok fn tg" "tg \<notin> set pre"
      by auto
    from I have v: "fwd_vals fn msk params s iv (D \<union> set pre) u" and r: "fwd_reg sof vof u"
      by simp_all
    from tg have "tg \<notin> D \<union> set pre" by simp
    from fwd_vals_fresh[OF v tg(1) this] have fresh: "values_of u tg = None" .
    let ?nd = "node_of fn (in_node (input_socket fn tg))"
    let ?u = "if is_function ?nd \<and> input_param_type fn tg \<noteq> ReadonlyVectorInput
          then with_copy tg src u else with_value tg (VirtualListList (ParamRef j)) u"
    have run: "bind_vector_input_target fn params (ParamRef j) tg u = Inr ?u"
      by (rule bind_vector_input_target_result[OF fresh p(1,2)])
         (use tg(3) in \<open>simp add: vector_consumer_ok_def\<close>)
    have "fwd_vals fn msk params s iv (insert tg (D \<union> set pre)) ?u \<and> fwd_reg sof vof ?u"
    proof (cases "is_function ?nd \<and> input_param_type fn tg \<noteq> ReadonlyVectorInput")
      case True
      with tg(3) have "is_mutable_input fn tg"
        by (auto simp: vector_consumer_ok_def is_mutable_input_def)
      moreover from True have "?u = with_copy tg src u" by simp
      ultimately show ?thesis
        using fwd_vals_copy[OF v fresh _ p(3)] fwd_reg_copy[OF r, of tg src] by simp
    next
      case False
      then have nm: "\<not> is_mutable_input fn tg" by (auto simp: is_mutable_input_def)
      have "fwd_vals fn msk params s iv (insert tg (D \<union> set pre)) (with_value tg (VirtualListList (ParamRef j)) u)"
        by (rule fwd_vals_set[OF v fresh])
           (use tg(3) nm p in \<open>simp_all add: stored_fits_def stored_ref_ok_def vector_ref_ok_def
              vector_consumer_ok_def\<close>)
      moreover from False have "?u = with_value tg (VirtualListList (ParamRef j)) u" by auto
      ultimately show ?thesis using r by simp
    qed
    then have "?I (pre @ [tg]) ?u" by simp
    with run show "\<exists>t'. bind_vector_input_target fn params (ParamRef j) tg u = Inr t' \<and> ?I (pre @ [tg]) t'"
      by blast
  qed
  then show ?thesis by blast
qed

lemma params_ok_input:
  assumes "params_ok fn msk params" "i < length (m_inputs fn)"
  shows "i < length params
         \<and> input_param_ok (out_category (output_socket fn (m_inputs fn ! i))) (min_array_size msk) (params ! i)"
  using assms by (simp add: params_ok_def list_all_upt)

lemma params_ok_output:
  assumes "params_ok fn msk params" "k < length (m_outputs fn)"
  shows "length (m_inputs fn) + k < length params
         \<and> output_param_ok (in_category (input_socket fn (m_outputs fn ! k))) (min_array_size msk)
             (params ! (length (m_inputs fn) + k))"
  using assms by (simp add: params_ok_def list_all_upt)

lemma state_ok_new_state_parts:
  "fwd_vals fn msk params (new_state msk) [] {} (new_state msk)" "fwd_reg [] [] (new_state msk)"
  by (simp_all add: fwd_vals_def fwd_reg_def new_state_def Storage_new_def stored_ok_def
      heap_rows_ok_def Storage_release_def)

lemma copy_input_to_storage_step:
  assumes wf: "wf_network fn" and po: "params_ok fn msk params"
    and i: "i < length (m_inputs fn)"
    and vals: "fwd_vals fn msk params (new_state msk) [] D u" and reg: "fwd_reg [] [] u"
    and d: "\<forall>tg \<in> D. origin (input_socket fn tg) \<noteq> m_inputs fn ! i"
  shows "\<exists>u'. copy_input_to_storage fn params i u = Inr u'
          \<and> fwd_vals fn msk params (new_state msk) []
               (D \<union> set (targets (output_socket fn (m_inputs fn ! i)))) u'
          \<and> fwd_reg [] [] u'"
proof -
  let ?out = "m_inputs fn ! i"
  let ?ts = "targets (output_socket fn ?out)"
  from i have mem: "?out \<in> set (m_inputs fn)" by simp
  from wf_network_m_inputs[OF wf mem] have ol: "?out < length (output_sockets (network fn))"
    and nf: "\<not> is_function (node_of fn (out_node (output_socket fn ?out)))" by simp_all
  note wo = wf_network_output_socket[OF wf ol]
  from wf_output_socketD(4)[OF wo] have dts: "distinct ?ts" .
  have tg: "tg < length (input_sockets (network fn)) \<and> tg \<notin> D
            \<and> in_kind fn tg = out_category (output_socket fn ?out)" if "tg \<in> set ?ts" for tg
  proof -
    from wf_output_socket_target[OF wo that]
    have tl: "tg < length (input_sockets (network fn))" and o: "origin (input_socket fn tg) = ?out"
      by simp_all
    from wf_input_socketD(6)[OF wf_network_input_socket[OF wf tl]] o nf
    have "in_kind fn tg = out_category (output_socket fn ?out)" by (simp add: out_kind_def)
    with tl o d show ?thesis by auto
  qed
  from params_ok_input[OF po i] have pl: "i < length params"
    and pk: "input_param_ok (out_category (output_socket fn ?out)) (min_array_size msk) (params ! i)"
    by simp_all
  show ?thesis
  proof (cases "out_category (output_socket fn ?out)")
    case Single
    with pk obtain xs where xs: "params ! i = ReadonlySingleArg xs" "min_array_size msk \<le> length xs"
      by (cases "params ! i") (auto simp: input_param_ok_def)
    have rd: "readonly_single_input params i = Inr (ParamRef i)"
      using pl xs by (simp add: readonly_single_input_def)
    from vals have hu: "values_of (new_state msk) tg = None" for tg
      by (simp add: new_state_def Storage_new_def)
    have "single_ref_ok (min_array_size msk) params (heap u) (ParamRef i)"
      using pl xs by (simp add: single_ref_ok_def)
    from forward_single_targets[OF vals reg this dts] tg Single hu
    obtain u' where "for_each (\<lambda>target. in_storage (set_virtual_list_for_input__non_owning target (ParamRef i)))
                 ?ts u = Inr u'" "fwd_vals fn msk params (new_state msk) [] (D \<union> set ?ts) u'"
      "fwd_reg [] [] u'" by auto
    with rd Single show ?thesis by (simp add: copy_input_to_storage_def)
  next
    case Vector
    with pk obtain xs where xs: "params ! i = ReadonlyVectorArg xs" "min_array_size msk \<le> length xs"
      by (cases "params ! i") (auto simp: input_param_ok_def)
    have rd: "readonly_vector_input params i = Inr (ParamRef i)"
      using pl xs by (simp add: readonly_vector_input_def)
    have hu: "values_of (new_state msk) tg = None" for tg
      by (simp add: new_state_def Storage_new_def)
    have "\<forall>tg \<in> set ?ts. values_of (new_state msk) tg = None \<and> tg \<notin> D \<and> vector_consumer_ok fn tg"
      using tg Vector hu vector_consumer_okI[OF wf] by simp
    from bind_vector_targets[OF vals reg pl xs dts this]
    obtain u' where "for_each (bind_vector_input_target fn params (ParamRef i)) ?ts u = Inr u'"
      "fwd_vals fn msk params (new_state msk) [] (D \<union> set ?ts) u'" "fwd_reg [] [] u'" by blast
    with rd Vector show ?thesis by (simp add: copy_input_to_storage_def)
  qed
qed

lemma copy_inputs_to_storage_ok:
  assumes wf: "wf_network fn" and po: "params_ok fn msk params"
  shows "\<exists>s0. copy_inputs_to_storage fn params (new_state msk) = Inr s0
          \<and> state_ok fn msk params s0 \<and> invoked s0 = []"
proof -
  let ?I = "\<lambda>pre u. fwd_vals fn msk params (new_state msk) [] (tgs fn (map ((!) (m_inputs fn)) pre)) u
              \<and> fwd_reg [] [] u"
  have "\<exists>s0. for_each (copy_input_to_storage fn params) [0..<length (m_inputs fn)] (new_state msk) = Inr s0
          \<and> ?I [0..<length (m_inputs fn)] s0"
  proof (rule for_each_rule[where I = ?I])
    show "?I [] (new_state msk)" using state_ok_new_state_parts by simp
  next
    fix pre i post u
    assume split: "[0..<length (m_inputs fn)] = pre @ i # post" and I: "?I pre u"
    from upt_split[OF split] have pre: "pre = [0..<i]" and i: "i < length (m_inputs fn)" by simp_all
    have d: "\<forall>tg \<in> tgs fn (map ((!) (m_inputs fn)) pre). origin (input_socket fn tg) \<noteq> m_inputs fn ! i"
    proof
      fix tg assume "tg \<in> tgs fn (map ((!) (m_inputs fn)) pre)"
      then obtain k where k: "k < i" "tg \<in> set (targets (output_socket fn (m_inputs fn ! k)))"
        by (auto simp: tgs_def pre)
      with i have kl: "k < length (m_inputs fn)" by simp
      then have "m_inputs fn ! k \<in> set (m_inputs fn)" by simp
      from wf_network_m_inputs[OF wf this]
      have "m_inputs fn ! k < length (output_sockets (network fn))" by simp
      from wf_output_socket_target[OF wf_network_output_socket[OF wf this] k(2)]
      have "origin (input_socket fn tg) = m_inputs fn ! k" by simp
      moreover from wf_network_distinct_m_inputs[OF wf] k(1) i kl
      have "m_inputs fn ! k \<noteq> m_inputs fn ! i" by (simp add: nth_eq_iff_index_eq)
      ultimately show "origin (input_socket fn tg) \<noteq> m_inputs fn ! i" by simp
    qed
    from copy_input_to_storage_step[OF wf po i _ _ d] I
    obtain u' where "copy_input_to_storage fn params i u = Inr u'"
      "fwd_vals fn msk params (new_state msk) []
               (tgs fn (map ((!) (m_inputs fn)) pre) \<union> set (targets (output_socket fn (m_inputs fn ! i)))) u'"
      "fwd_reg [] [] u'" by blast
    then show "\<exists>u'. copy_input_to_storage fn params i u = Inr u' \<and> ?I (pre @ [i]) u'"
      by (auto simp: tgs_snoc)
  qed
  then obtain s0 where run: "copy_inputs_to_storage fn params (new_state msk) = Inr s0"
    and v: "fwd_vals fn msk params (new_state msk) [] (tgs fn (map ((!) (m_inputs fn)) [0..<length (m_inputs fn)])) s0"
    and r: "fwd_reg [] [] s0"
    by (auto simp: copy_inputs_to_storage_def)
  have D: "tgs fn (map ((!) (m_inputs fn)) [0..<length (m_inputs fn)]) = tgs fn (m_inputs fn)"
    by (simp add: map_nth)
  from v have i0: "invoked s0 = []" and so: "stored_ok fn msk params s0"
    and hr: "heap_rows_ok msk (heap s0)"
    and ub: "dom (values_of s0) \<subseteq> tgs fn (m_inputs fn)"
    and lb: "\<forall>tg \<in> tgs fn (m_inputs fn). demandable fn tg \<longrightarrow> values_of s0 tg \<noteq> None"
    unfolding D by (simp_all add: fwd_vals_def new_state_def Storage_new_def)
  have reg: "registry_ok s0" using r by (simp add: fwd_reg_def registry_ok_def)
  have io: "invoked_ok fn s0" using i0 by (simp add: invoked_ok_def)
  have co: "computed_ok fn s0"
    unfolding computed_ok_def
  proof (intro allI)
    fix i
    have c1: "i < length (input_sockets (network fn)) \<and> sourced fn s0 i" if "values_of s0 i \<noteq> None"
    proof -
      from that ub have "i \<in> tgs fn (m_inputs fn)" by (auto simp: dom_def)
      then obtain out where o: "out \<in> set (m_inputs fn)" "i \<in> set (targets (output_socket fn out))"
        by (auto simp: tgs_def)
      from wf_network_m_inputs[OF wf o(1)] have "out < length (output_sockets (network fn))" by simp
      from wf_output_socket_target[OF wf_network_output_socket[OF wf this] o(2)] o(1)
      show ?thesis by (simp add: sourced_def)
    qed
    have c2: "values_of s0 i \<noteq> None"
      if a: "i < length (input_sockets (network fn)) \<and> sourced fn s0 i \<and> demandable fn i"
    proof -
      from a i0 have "origin (input_socket fn i) \<in> set (m_inputs fn)" by (simp add: sourced_def)
      moreover from a wf_input_socketD(5)[OF wf_network_input_socket[OF wf]]
      have "i \<in> set (targets (output_socket fn (origin (input_socket fn i))))" by simp
      ultimately have "i \<in> tgs fn (m_inputs fn)" by (rule tgs_mem)
      with lb a show ?thesis by simp
    qed
    from c1 c2 show "(values_of s0 i \<noteq> None \<longrightarrow> i < length (input_sockets (network fn)) \<and> sourced fn s0 i)
        \<and> (i < length (input_sockets (network fn)) \<and> sourced fn s0 i \<and> demandable fn i
             \<longrightarrow> values_of s0 i \<noteq> None)" by blast
  qed
  from so hr co io reg have "state_ok fn msk params s0" by (simp add: state_ok_def)
  with run i0 show ?thesis by blast
qed

section \<open>The scheduler loop\<close>

lemma wf_sched_rel: "wf (sched_rel rk fn)"
  unfolding sched_rel_def by (intro wf_inv_image wf_lex_prod wf_less_than)

lemma sched_rel_iff:
  "(c', c) \<in> sched_rel rk fn \<longleftrightarrow>
     (fst (sched_measure rk fn c') < fst (sched_measure rk fn c)
      \<or> fst (sched_measure rk fn c') = fst (sched_measure rk fn c)
        \<and> (fst (snd (sched_measure rk fn c')) < fst (snd (sched_measure rk fn c))
           \<or> fst (snd (sched_measure rk fn c')) = fst (snd (sched_measure rk fn c))
             \<and> snd (snd (sched_measure rk fn c')) < snd (snd (sched_measure rk fn c))))"
  by (cases "sched_measure rk fn c'"; cases "sched_measure rk fn c")
     (auto simp: sched_rel_def)

lemma ordered_append_inputs:
  assumes "ordered rk fn st"
    and "\<forall>e \<in> set xs. (\<exists>i. e = InputSocket i)
            \<and> (\<forall>out. OutputSocket out \<in> set st \<longrightarrow> lvl rk fn e < lvl rk fn (OutputSocket out))"
  shows "ordered rk fn (xs @ st)"
  using assms(2)
proof (induction xs)
  case Nil
  with assms(1) show ?case by simp
next
  case (Cons x xs)
  then have "ordered rk fn (xs @ st)" by simp
  moreover have "\<forall>out. OutputSocket out \<in> set (xs @ st) \<longrightarrow> lvl rk fn x < lvl rk fn (OutputSocket out)"
    using Cons.prems by auto
  ultimately show ?case by simp
qed

lemma ranked_origin:
  assumes "ranked rk fn" "i < length (input_sockets (network fn))"
  shows "rk (out_node (output_socket fn (origin (input_socket fn i)))) < rk (in_node (input_socket fn i))"
proof -
  from assms(2) have "input_sockets (network fn) ! i \<in> set (input_sockets (network fn))" by simp
  then have "(out_node (output_socket fn (origin (input_socket fn i))), in_node (input_socket fn i))
      \<in> node_deps fn"
    by (auto simp: node_deps_def input_socket_def)
  with assms(1) show ?thesis by (auto simp: ranked_def)
qed

lemma sched_measure_simps:
  "sched_measure rk fn (e # st, s) =
     (card ({..<length (nodes (network fn))} - set (invoked s)),
      if active s e then (0, lvl rk fn e) else (1, Suc (length st)))"
  "sched_measure rk fn ([], s) = (card ({..<length (nodes (network fn))} - set (invoked s)), 1, 0)"
  by (simp_all add: sched_measure_def)

lemma state_ok_computed:
  "state_ok fn msk params s \<Longrightarrow> computed_ok fn s"
  by (simp add: state_ok_def)

lemma scheduler_step_ok:
  assumes wf: "wf_network fn" and rk: "ranked rk fn"
    and ok: "cfg_ok rk fn msk params cfg" and ne: "fst cfg \<noteq> []"
  shows "\<exists>cfg'. scheduler_step fn msk params cfg = Inr cfg' \<and> cfg_ok rk fn msk params cfg'
            \<and> (cfg', cfg) \<in> sched_rel rk fn"
proof -
  obtain stack s where cfg: "cfg = (stack, s)" by (cases cfg)
  from ne cfg obtain e rest where stack: "stack = e # rest" by (cases stack) auto
  from ok cfg have sok: "state_ok fn msk params s" and stk: "stack_ok rk fn s stack"
    by (simp_all add: cfg_ok_def)
  from sok have co: "computed_ok fn s" by (rule state_ok_computed)
  from stk stack have eok: "socket_ok fn s e" and rok: "\<forall>x \<in> set rest. socket_ok fn s x"
    and hd_ord: "\<forall>out. OutputSocket out \<in> set rest \<longrightarrow> lvl rk fn e < lvl rk fn (OutputSocket out)"
    and ord: "ordered rk fn rest"
    and mo: "\<forall>i \<in> set (m_outputs fn). input_is_computed (storage s) i \<or> InputSocket i \<in> set (e # rest)"
    by (simp_all add: stack_ok_def)
  show ?thesis
  proof (cases e)
    case (InputSocket i)
    with eok have il: "i < length (input_sockets (network fn))" and dem: "demandable fn i"
      by (simp_all add: socket_ok_def)
    show ?thesis
    proof (cases "input_is_computed (storage s) i")
      case True
      let ?cfg' = "(rest, s)"
      have run: "scheduler_step fn msk params cfg = Inr ?cfg'"
        using True by (simp add: cfg stack InputSocket scheduler_step_input)
      have "stack_ok rk fn s rest"
        using rok ord mo True InputSocket by (auto simp: stack_ok_def)
      with sok have ok': "cfg_ok rk fn msk params ?cfg'" by (simp add: cfg_ok_def)
      have "(?cfg', cfg) \<in> sched_rel rk fn"
        using True
        by (cases rest)
           (simp_all add: sched_rel_iff cfg stack InputSocket sched_measure_simps active_def)
      with run ok' show ?thesis by blast
    next
      case False
      let ?o = "origin (input_socket fn i)"
      let ?cfg' = "(OutputSocket ?o # stack, s)"
      have run: "scheduler_step fn msk params cfg = Inr ?cfg'"
        using False by (simp add: cfg stack InputSocket scheduler_step_input)
      note wi = wf_input_socketD[OF wf_network_input_socket[OF wf il]]
      from False have unc: "values_of s i = None" by (simp add: input_is_computed_def)
      have ns: "\<not> sourced fn s i"
        using computed_okD(2)[OF co il _ dem] unc by blast
      then have nin: "?o \<notin> set (m_inputs fn)"
        and ninv: "out_node (output_socket fn ?o) \<notin> set (invoked s)"
        by (simp_all add: sourced_def)
      with wi(7) have fu: "is_function (node_of fn (out_node (output_socket fn ?o)))" by simp
      have ook: "socket_ok fn s (OutputSocket ?o)"
        using wi(4) fu ninv by (simp add: socket_ok_def)
      have lt: "lvl rk fn (OutputSocket ?o) < lvl rk fn (InputSocket i)"
        using ranked_origin[OF rk il] by (simp add: lvl_def)
      have "\<forall>out. OutputSocket out \<in> set stack \<longrightarrow> lvl rk fn (OutputSocket ?o) < lvl rk fn (OutputSocket out)"
      proof (intro allI impI)
        fix out assume "OutputSocket out \<in> set stack"
        with stack InputSocket have "OutputSocket out \<in> set rest" by simp
        with hd_ord InputSocket have "lvl rk fn (InputSocket i) < lvl rk fn (OutputSocket out)" by simp
        with lt show "lvl rk fn (OutputSocket ?o) < lvl rk fn (OutputSocket out)" by simp
      qed
      moreover from stk have "ordered rk fn stack" by (simp add: stack_ok_def)
      ultimately have "ordered rk fn (OutputSocket ?o # stack)" by simp
      then have "stack_ok rk fn s (OutputSocket ?o # stack)"
        using stk ook by (auto simp: stack_ok_def)
      with sok have ok': "cfg_ok rk fn msk params ?cfg'" by (simp add: cfg_ok_def)
      have "(?cfg', cfg) \<in> sched_rel rk fn"
        using False lt
        by (simp add: sched_rel_iff cfg stack InputSocket sched_measure_simps active_def)
      with run ok' show ?thesis by blast
    qed
  next
    case (OutputSocket out)
    let ?n = "out_node (output_socket fn out)"
    let ?nd = "node_of fn ?n"
    from eok OutputSocket have ol: "out < length (output_sockets (network fn))"
      and fu: "is_function ?nd" and ninv: "?n \<notin> set (invoked s)"
      by (simp_all add: socket_ok_def)
    from wf_output_socketD(1)[OF wf_network_output_socket[OF wf ol]]
    have nl: "?n < length (nodes (network fn))" .
    from wf_network_node[OF wf nl] have wn: "wf_node fn ?n" .
    let ?missing = "filter (\<lambda>i. \<not> input_is_computed (storage s) i) (inputs ?nd)"
    note step = scheduler_step_output[OF fu wf_node_function(5)[OF wn fu], of msk params rest s]
    show ?thesis
    proof (cases "?missing = []")
      case True
      then have "\<forall>i \<in> set (inputs ?nd). values_of s i \<noteq> None"
        by (auto simp: filter_empty_conv input_is_computed_def)
      with nl fu have rdy: "node_ready fn s ?n" by (simp add: node_ready_def)
      from compute_and_forward_outputs_ok[OF wf sok rdy ninv] obtain s' where
        s': "compute_and_forward_outputs fn msk params ?n s = Inr s'"
        and sok': "state_ok fn msk params s'" and inv': "invoked s' = invoked s @ [?n]"
        and le: "values_of s \<subseteq>\<^sub>m values_of s'" by blast
      let ?cfg' = "(rest, s')"
      have run: "scheduler_step fn msk params cfg = Inr ?cfg'"
        using step True s' by (simp add: cfg stack OutputSocket Let_def)
      have "\<forall>x \<in> set rest. socket_ok fn s' x"
      proof
        fix x assume x: "x \<in> set rest"
        with rok have xo: "socket_ok fn s x" by simp
        show "socket_ok fn s' x"
        proof (cases x)
          case (InputSocket j)
          with xo show ?thesis by (simp add: socket_ok_def)
        next
          case (OutputSocket out')
          with x hd_ord \<open>e = OutputSocket out\<close>
          have "lvl rk fn (OutputSocket out) < lvl rk fn (OutputSocket out')" by simp
          then have "out_node (output_socket fn out') \<noteq> ?n" by (auto simp: lvl_def)
          with xo OutputSocket inv' show ?thesis by (simp add: socket_ok_def)
        qed
      qed
      moreover have "\<forall>i \<in> set (m_outputs fn). input_is_computed (storage s') i \<or> InputSocket i \<in> set rest"
      proof
        fix i assume "i \<in> set (m_outputs fn)"
        with mo have "input_is_computed (storage s) i \<or> InputSocket i \<in> set (e # rest)" by simp
        then show "input_is_computed (storage s') i \<or> InputSocket i \<in> set rest"
          using map_le_dom_Some[OF le, of i] OutputSocket by (auto simp: input_is_computed_def)
      qed
      ultimately have "stack_ok rk fn s' rest" using ord by (simp add: stack_ok_def)
      with sok' have ok': "cfg_ok rk fn msk params ?cfg'" by (simp add: cfg_ok_def)
      have "card ({..<length (nodes (network fn))} - set (invoked s'))
              < card ({..<length (nodes (network fn))} - set (invoked s))"
      proof (rule psubset_card_mono)
        show "finite ({..<length (nodes (network fn))} - set (invoked s))" by simp
        show "{..<length (nodes (network fn))} - set (invoked s') \<subset> {..<length (nodes (network fn))} - set (invoked s)"
          using inv' nl ninv by auto
      qed
      then have "(?cfg', cfg) \<in> sched_rel rk fn"
        by (simp add: sched_rel_iff cfg sched_measure_def)
      with run ok' show ?thesis by blast
    next
      case False
      let ?pushed = "rev (map InputSocket ?missing) @ stack"
      let ?cfg' = "(?pushed, s)"
      have run: "scheduler_step fn msk params cfg = Inr ?cfg'"
        using step False by (simp add: cfg stack OutputSocket Let_def)
      have inp: "j < length (input_sockets (network fn)) \<and> in_node (input_socket fn j) = ?n"
        if "j \<in> set (inputs ?nd)" for j
      proof -
        from that obtain k where "k < length (inputs ?nd)" "j = inputs ?nd ! k"
          by (auto simp: in_set_conv_nth)
        with wf_node_input[OF wn] show ?thesis by simp
      qed
      have new_ok: "socket_ok fn s x \<and> (\<exists>i. x = InputSocket i)
          \<and> lvl rk fn x < lvl rk fn (OutputSocket out)"
        if "x \<in> set (rev (map InputSocket ?missing))" for x
      proof -
        from that obtain j where j: "x = InputSocket j" "j \<in> set (inputs ?nd)" by auto
        with inp[OF j(2)] fu show ?thesis by (simp add: socket_ok_def demandable_def lvl_def)
      qed
      have "\<forall>x \<in> set (rev (map InputSocket ?missing)). (\<exists>i. x = InputSocket i)
            \<and> (\<forall>out'. OutputSocket out' \<in> set stack \<longrightarrow> lvl rk fn x < lvl rk fn (OutputSocket out'))"
      proof (intro ballI conjI allI impI)
        fix x assume x: "x \<in> set (rev (map InputSocket ?missing))"
        from new_ok[OF x] show "\<exists>i. x = InputSocket i" by simp
        fix out' assume "OutputSocket out' \<in> set stack"
        with stack OutputSocket have "out' = out \<or> OutputSocket out' \<in> set rest" by auto
        then show "lvl rk fn x < lvl rk fn (OutputSocket out')"
        proof
          assume "out' = out"
          with new_ok[OF x] show ?thesis by simp
        next
          assume "OutputSocket out' \<in> set rest"
          with hd_ord OutputSocket have "lvl rk fn (OutputSocket out) < lvl rk fn (OutputSocket out')"
            by simp
          with new_ok[OF x] show ?thesis by simp
        qed
      qed
      moreover from stk have "ordered rk fn stack" by (simp add: stack_ok_def)
      ultimately have "ordered rk fn ?pushed" by (rule ordered_append_inputs[rotated])
      moreover have "\<forall>x \<in> set ?pushed. socket_ok fn s x"
        using new_ok stk by (auto simp: stack_ok_def)
      moreover have "\<forall>i \<in> set (m_outputs fn). input_is_computed (storage s) i \<or> InputSocket i \<in> set ?pushed"
        using stk by (auto simp: stack_ok_def)
      ultimately have "stack_ok rk fn s ?pushed" by (simp add: stack_ok_def)
      with sok have ok': "cfg_ok rk fn msk params ?cfg'" by (simp add: cfg_ok_def)
      from False obtain l where l: "?missing = butlast ?missing @ [l]" "l = last ?missing"
        by (metis append_butlast_last_id)
      from False have lm: "l \<in> set ?missing" using l(2) last_in_set by blast
      have pushed: "?pushed = InputSocket l # (rev (map InputSocket (butlast ?missing)) @ stack)"
        by (subst l(1)) simp
      from lm have "\<not> input_is_computed (storage s) l" "l \<in> set (inputs ?nd)" by simp_all
      with inp[of l] have "active s (InputSocket l)"
        "lvl rk fn (InputSocket l) < lvl rk fn (OutputSocket out)"
        by (simp_all add: active_def lvl_def)
      then have "(?cfg', cfg) \<in> sched_rel rk fn"
        unfolding pushed
        by (simp add: sched_rel_iff cfg stack OutputSocket sched_measure_simps active_def)
      with run ok' show ?thesis by blast
    qed
  qed
qed

lemma scheduler_loop_ok:
  assumes wf: "wf_network fn" and rk: "ranked rk fn"
  shows "cfg_ok rk fn msk params cfg \<Longrightarrow>
     \<exists>s'. scheduler_loop fn msk params cfg = Some (Inr s') \<and> state_ok fn msk params s'
        \<and> (\<forall>i \<in> set (m_outputs fn). input_is_computed (storage s') i)"
proof (induction cfg rule: wf_induct_rule[OF wf_sched_rel[of rk fn]])
  case (1 cfg)
  show ?case
  proof (cases "fst cfg = []")
    case True
    have "scheduler_loop fn msk params cfg = Some (Inr (snd cfg))"
      using True by (subst scheduler_loop.simps) simp
    moreover from "1.prems" have "state_ok fn msk params (snd cfg)" by (simp add: cfg_ok_def)
    moreover from "1.prems" True
    have "\<forall>i \<in> set (m_outputs fn). input_is_computed (storage (snd cfg)) i"
      by (simp add: cfg_ok_def stack_ok_def)
    ultimately show ?thesis by blast
  next
    case False
    from scheduler_step_ok[OF wf rk "1.prems" False] obtain cfg' where
      st: "scheduler_step fn msk params cfg = Inr cfg'" and ok': "cfg_ok rk fn msk params cfg'"
      and dec: "(cfg', cfg) \<in> sched_rel rk fn" by blast
    have "scheduler_loop fn msk params cfg = scheduler_loop fn msk params cfg'"
      using False st by (subst scheduler_loop.simps) simp
    with "1.IH"[OF dec ok'] show ?thesis by simp
  qed
qed

lemma ordered_inputs: "ordered rk fn (map InputSocket xs)"
  by (induction xs) auto

lemma initial_cfg_ok:
  assumes wf: "wf_network fn" and sok: "state_ok fn msk params s"
  shows "cfg_ok rk fn msk params (rev (map InputSocket (m_outputs fn)), s)"
proof -
  have "\<forall>e \<in> set (rev (map InputSocket (m_outputs fn))). socket_ok fn s e"
    using wf_network_m_outputs[OF wf] by (auto simp: socket_ok_def demandable_def)
  moreover have "ordered rk fn (rev (map InputSocket (m_outputs fn)))"
    using ordered_inputs[of rk fn "rev (m_outputs fn)"] by (simp add: rev_map)
  ultimately show ?thesis using sok by (simp add: cfg_ok_def stack_ok_def)
qed

lemma evaluate_network_to_compute_outputs_ok:
  assumes "wf_network fn" "ranked rk fn" "state_ok fn msk params s"
  shows "\<exists>s'. evaluate_network_to_compute_outputs fn msk params s = Some (Inr s')
        \<and> state_ok fn msk params s'
        \<and> (\<forall>i \<in> set (m_outputs fn). input_is_computed (storage s') i)"
  unfolding evaluate_network_to_compute_outputs_def
  by (rule scheduler_loop_ok[OF assms(1,2) initial_cfg_ok[OF assms(1,3)]])

section \<open>A ranking of the nodes of an acyclic graph\<close>

lemma finite_node_deps: "finite (node_deps fn)"
  by (simp add: node_deps_def)

lemma acyclic_ranking:
  assumes fin: "finite r" and ac: "acyclic r"
  shows "\<forall>(a, b) \<in> r. card {y. (y, a) \<in> r\<^sup>+} < card {y. (y, b) \<in> r\<^sup>+}"
proof (clarify)
  fix a b assume ab: "(a, b) \<in> r"
  from fin have ft: "finite (r\<^sup>+)" by simp
  have fb: "finite {y. (y, b) \<in> r\<^sup>+}"
  proof (rule finite_subset)
    show "{y. (y, b) \<in> r\<^sup>+} \<subseteq> fst ` (r\<^sup>+)" by force
    show "finite (fst ` (r\<^sup>+))" using ft by simp
  qed
  have "{y. (y, a) \<in> r\<^sup>+} \<subset> {y. (y, b) \<in> r\<^sup>+}"
  proof
    show "{y. (y, a) \<in> r\<^sup>+} \<subseteq> {y. (y, b) \<in> r\<^sup>+}"
      using ab by (auto intro: trancl_into_trancl)
    have "a \<in> {y. (y, b) \<in> r\<^sup>+}" using ab by auto
    moreover have "a \<notin> {y. (y, a) \<in> r\<^sup>+}" using ac by (auto simp: acyclic_def)
    ultimately show "{y. (y, a) \<in> r\<^sup>+} \<noteq> {y. (y, b) \<in> r\<^sup>+}" by blast
  qed
  then show "card {y. (y, a) \<in> r\<^sup>+} < card {y. (y, b) \<in> r\<^sup>+}"
    using fb by (rule psubset_card_mono[rotated])
qed

lemma acyclic_ranked:
  assumes "acyclic (node_deps fn)"
  shows "\<exists>rk. ranked rk fn"
proof -
  have "ranked (\<lambda>a. card {y. (y, a) \<in> (node_deps fn)\<^sup>+}) fn"
    unfolding ranked_def by (rule acyclic_ranking[OF finite_node_deps assms])
  then show ?thesis by blast
qed

lemma ranked_acyclic:
  assumes "ranked rk fn"
  shows "acyclic (node_deps fn)"
proof -
  have "node_deps fn \<subseteq> measure rk" using assms by (auto simp: ranked_def)
  then have "wf (node_deps fn)" by (rule wf_subset[OF wf_measure])
  then show ?thesis by (rule wf_acyclic)
qed

section \<open>The output copy\<close>

lemma fold_max_ge: "(a::nat) \<le> fold max xs a"
  by (induction xs arbitrary: a) (auto intro: order_trans[OF max.cobounded2])

lemma fold_max_mem: "i \<in> set xs \<Longrightarrow> (i::nat) \<le> fold max xs a"
proof (induction xs arbitrary: a)
  case Nil
  then show ?case by simp
next
  case (Cons x xs)
  show ?case
  proof (cases "i = x")
    case True
    have "x \<le> max x a" by simp
    also have "\<dots> \<le> fold max xs (max x a)" by (rule fold_max_ge)
    finally show ?thesis using True by simp
  next
    case False
    with Cons.prems have "i \<in> set xs" by simp
    from Cons.IH[OF this] show ?thesis by simp
  qed
qed

lemma mask_index_bound: "i \<in> set msk \<Longrightarrow> i < min_array_size msk"
  using fold_max_mem[of i msk 0] by (auto simp: min_array_size_def)

lemma fold_max_Max: "fold max xs (a::nat) = Max (insert a (set xs))"
proof (induction xs arbitrary: a)
  case Nil
  then show ?case by simp
next
  case (Cons x xs)
  have "fold max (x # xs) a = Max (insert (max x a) (set xs))" by (simp add: Cons.IH)
  also have "\<dots> = Max (insert a (set (x # xs)))"
    by (cases "set xs = {}") (simp_all add: max.commute max.left_commute max.assoc)
  finally show ?case .
qed

lemma min_array_size_Max: "msk \<noteq> [] \<Longrightarrow> min_array_size msk = Suc (Max (set msk))"
proof -
  assume ne: "msk \<noteq> []"
  then have "Max (insert 0 (set msk)) = Max (set msk)" by (simp add: max_def)
  with ne show ?thesis by (simp add: min_array_size_def fold_max_Max)
qed

lemma copy_single_loop:
  assumes "\<forall>i \<in> set msk. i < length xs \<and> i < length dst"
  shows "\<exists>dst'. for_each (\<lambda>i dst. and_then (nth_checked xs i) (\<lambda>x. copy_in__uninitialized i x dst))
                  msk dst = Inr dst' \<and> written_single msk xs dst dst'"
  using assms
proof (induction msk arbitrary: dst)
  case Nil
  then show ?case by (simp add: written_single_def list_all_upt)
next
  case (Cons i msk)
  let ?d = "dst[i := xs ! i]"
  from Cons.prems have i: "i < length xs" "i < length dst" by simp_all
  have "\<forall>j \<in> set msk. j < length xs \<and> j < length ?d" using Cons.prems by simp
  from Cons.IH[OF this] obtain dst' where
    run: "for_each (\<lambda>i dst. and_then (nth_checked xs i) (\<lambda>x. copy_in__uninitialized i x dst)) msk ?d = Inr dst'"
    and w: "written_single msk xs ?d dst'" by blast
  have "written_single (i # msk) xs dst dst'"
    using w i by (auto simp: written_single_def list_all_upt nth_list_update)
  with run i show ?case by (simp add: nth_checked_def copy_in__uninitialized_def)
qed

lemma copy_vector_loop:
  assumes "\<forall>i \<in> set msk. i < length xs \<and> i < length dst" "distinct msk"
  shows "\<exists>dst'. for_each (\<lambda>i dst. and_then (nth_checked xs i) (\<lambda>x. extend_single__copy i x dst))
                  msk dst = Inr dst' \<and> written_vector msk xs dst dst'"
  using assms
proof (induction msk arbitrary: dst)
  case Nil
  then show ?case by (simp add: written_vector_def list_all_upt)
next
  case (Cons i msk)
  let ?d = "dst[i := dst ! i @ xs ! i]"
  from Cons.prems have i: "i < length xs" "i < length dst" "i \<notin> set msk" "distinct msk" by simp_all
  have "\<forall>j \<in> set msk. j < length xs \<and> j < length ?d" using Cons.prems by simp
  from Cons.IH[OF this i(4)] obtain dst' where
    run: "for_each (\<lambda>i dst. and_then (nth_checked xs i) (\<lambda>x. extend_single__copy i x dst)) msk ?d = Inr dst'"
    and w: "written_vector msk xs ?d dst'" by blast
  have "written_vector (i # msk) xs dst dst'"
    using w i by (auto simp: written_vector_def list_all_upt nth_list_update)
  with run i show ?case by (simp add: nth_checked_def extend_single__copy_def)
qed

lemma params_ok_readonly_is_input:
  assumes po: "params_ok fn msk params" and j: "j < length params"
    and ro: "(\<exists>xs. params ! j = ReadonlySingleArg xs) \<or> (\<exists>xs. params ! j = ReadonlyVectorArg xs)"
  shows "j < length (m_inputs fn)"
proof (rule ccontr)
  assume "\<not> j < length (m_inputs fn)"
  then obtain k where k: "j = length (m_inputs fn) + k" by (metis le_add_diff_inverse not_less)
  from po j k have "k < length (m_outputs fn)" by (simp add: params_ok_def)
  from params_ok_output[OF po this] ro k show False
    by (auto simp: output_param_ok_def)
qed

lemma single_values_frame:
  assumes po: "params_ok fn msk params" and r: "single_ref_ok n params h r"
    and lp: "length p = length params" and same: "\<forall>j < length (m_inputs fn). p ! j = params ! j"
  shows "single_values p h r = single_values params h r"
proof (cases r)
  case (ParamRef j)
  with r have j: "j < length params" and "\<exists>xs. params ! j = ReadonlySingleArg xs"
    by (auto simp: single_ref_ok_def split: MFParam.splits)
  with params_ok_readonly_is_input[OF po j] same have "p ! j = params ! j" by simp
  with ParamRef j lp show ?thesis by (simp add: single_values_def)
next
  case (HeapRef a)
  then show ?thesis by (simp add: single_values_def)
qed

lemma vector_values_frame:
  assumes po: "params_ok fn msk params" and r: "vector_ref_ok n params h r"
    and lp: "length p = length params" and same: "\<forall>j < length (m_inputs fn). p ! j = params ! j"
  shows "vector_values p h r = vector_values params h r"
proof (cases r)
  case (ParamRef j)
  with r have j: "j < length params" and "\<exists>xs. params ! j = ReadonlyVectorArg xs"
    by (auto simp: vector_ref_ok_def split: MFParam.splits)
  with params_ok_readonly_is_input[OF po j] same have "p ! j = params ! j" by simp
  with ParamRef j lp show ?thesis by (simp add: vector_values_def)
next
  case (HeapRef a)
  then show ?thesis by (simp add: vector_values_def)
qed

lemma single_ref_ok_rows:
  assumes "single_ref_ok n params h r" "\<forall>b \<in> set h. n \<le> buffer_rows b"
  shows "\<exists>xs. single_values params h r = Inr xs \<and> n \<le> length xs"
proof (cases r)
  case (ParamRef j)
  with assms(1) show ?thesis
    by (auto simp: single_ref_ok_def single_values_def split: MFParam.splits)
next
  case (HeapRef a)
  with assms(1) have a: "a < length h" "is_array_buffer (h ! a)" by (simp_all add: single_ref_ok_def)
  then have "h ! a \<in> set h" by simp
  with assms(2) have "n \<le> buffer_rows (h ! a)" by blast
  with a HeapRef show ?thesis
    by (cases "h ! a") (simp_all add: single_values_def is_array_buffer_def buffer_rows_def)
qed

lemma vector_ref_ok_rows:
  assumes "vector_ref_ok n params h r" "\<forall>b \<in> set h. n \<le> buffer_rows b"
  shows "\<exists>xs. vector_values params h r = Inr xs \<and> n \<le> length xs"
proof (cases r)
  case (ParamRef j)
  with assms(1) show ?thesis
    by (auto simp: vector_ref_ok_def vector_values_def split: MFParam.splits)
next
  case (HeapRef a)
  with assms(1) have a: "a < length h" "is_vector_buffer (h ! a)" by (simp_all add: vector_ref_ok_def)
  then have "h ! a \<in> set h" by simp
  with assms(2) have "n \<le> buffer_rows (h ! a)" by blast
  with a HeapRef show ?thesis
    by (cases "h ! a") (simp_all add: vector_values_def is_vector_buffer_def buffer_rows_def)
qed

lemma stored_for_output:
  assumes wf: "wf_network fn" and so: "stored_ok fn msk params s"
    and k: "k < length (m_outputs fn)" and v: "values_of s (m_outputs fn ! k) = Some v"
  shows "(in_category (input_socket fn (m_outputs fn ! k)) = Single \<longrightarrow>
           (\<exists>r. v = VirtualList r \<and> single_ref_ok (min_array_size msk) params (heap s) r))
       \<and> (in_category (input_socket fn (m_outputs fn ! k)) = Vector \<longrightarrow>
           (\<exists>r. v = VirtualListList r \<and> vector_ref_ok (min_array_size msk) params (heap s) r))"
proof -
  from k have "m_outputs fn ! k \<in> set (m_outputs fn)" by simp
  from wf_network_m_outputs[OF wf this]
  have nf: "\<not> is_function (node_of fn (in_node (input_socket fn (m_outputs fn ! k))))" by simp
  from stored_okD[OF so v] nf show ?thesis
    by (cases v) (auto simp: stored_fits_def stored_ref_ok_def in_kind_def is_mutable_input_def)
qed

lemma copy_output_to_params_step:
  assumes wf: "wf_network fn" and sok: "state_ok fn msk params s"
    and po: "params_ok fn msk params" and dm: "distinct msk"
    and k: "k < length (m_outputs fn)"
    and cmp: "input_is_computed (storage s) (m_outputs fn ! k)"
    and lp: "length p = length params"
    and same: "\<forall>j < length params. j < length (m_inputs fn) \<or> length (m_inputs fn) + k \<le> j
                 \<longrightarrow> p ! j = params ! j"
  shows "\<exists>p'. copy_output_to_params fn msk s k p = Inr p' \<and> length p' = length params
          \<and> (\<forall>j < length params. j \<noteq> length (m_inputs fn) + k \<longrightarrow> p' ! j = p ! j)
          \<and> materialized fn msk params s k (p' ! (length (m_inputs fn) + k))"
proof -
  let ?sock = "m_outputs fn ! k"
  let ?g = "length (m_inputs fn) + k"
  from sok have so: "stored_ok fn msk params s" and hr: "heap_rows_ok msk (heap s)"
    by (simp_all add: state_ok_def)
  from hr have rows: "\<forall>b \<in> set (heap s). min_array_size msk \<le> buffer_rows b"
    by (simp add: heap_rows_ok_def)
  from cmp obtain v where v: "values_of s ?sock = Some v" by (auto simp: input_is_computed_def)
  note st = stored_for_output[OF wf so k v]
  from params_ok_output[OF po k] have g: "?g < length params"
    and op: "output_param_ok (in_category (input_socket fn ?sock)) (min_array_size msk) (params ! ?g)"
    by simp_all
  from same g have pg: "p ! ?g = params ! ?g" by simp
  from same po have same_in: "\<forall>j < length (m_inputs fn). p ! j = params ! j"
    by (simp add: params_ok_def)
  show ?thesis
  proof (cases "in_category (input_socket fn ?sock)")
    case Single
    with st obtain r where r: "v = VirtualList r"
      "single_ref_ok (min_array_size msk) params (heap s) r" by blast
    from single_ref_ok_rows[OF r(2) rows] obtain xs where
      xs: "single_values params (heap s) r = Inr xs" "min_array_size msk \<le> length xs" by blast
    from op Single obtain dst where dst: "params ! ?g = SingleOutputArg dst"
      "min_array_size msk \<le> length dst"
      by (auto simp: output_param_ok_def split: MFParam.splits)
    have "\<forall>i \<in> set msk. i < length xs \<and> i < length dst"
      using mask_index_bound[of _ msk] xs(2) dst(2) by fastforce
    from copy_single_loop[OF this] obtain dst' where
      loop: "for_each (\<lambda>i dst. and_then (nth_checked xs i) (\<lambda>x. copy_in__uninitialized i x dst))
                  msk dst = Inr dst'" and w: "written_single msk xs dst dst'" by blast
    let ?p' = "p[?g := SingleOutputArg dst']"
    have "copy_output_to_params fn msk s k p = Inr ?p'"
      using Single v r(1) xs(1) dst(1) pg g lp loop
        single_values_frame[OF po r(2) lp same_in]
      by (simp add: copy_output_to_params_def Let_def get_virtual_list_for_input_def
          single_output_def)
    moreover have "materialized fn msk params s k (?p' ! ?g)"
      using Single v r(1) xs(1) dst(1) w g lp by (simp add: materialized_def)
    ultimately show ?thesis using lp by simp
  next
    case Vector
    with st obtain r where r: "v = VirtualListList r"
      "vector_ref_ok (min_array_size msk) params (heap s) r" by blast
    from vector_ref_ok_rows[OF r(2) rows] obtain xs where
      xs: "vector_values params (heap s) r = Inr xs" "min_array_size msk \<le> length xs" by blast
    from op Vector obtain dst where dst: "params ! ?g = VectorOutputArg dst"
      "min_array_size msk \<le> length dst"
      by (auto simp: output_param_ok_def split: MFParam.splits)
    have "\<forall>i \<in> set msk. i < length xs \<and> i < length dst"
      using mask_index_bound[of _ msk] xs(2) dst(2) by fastforce
    from copy_vector_loop[OF this dm] obtain dst' where
      loop: "for_each (\<lambda>i dst. and_then (nth_checked xs i) (\<lambda>x. extend_single__copy i x dst))
                  msk dst = Inr dst'" and w: "written_vector msk xs dst dst'" by blast
    let ?p' = "p[?g := VectorOutputArg dst']"
    have "copy_output_to_params fn msk s k p = Inr ?p'"
      using Vector v r(1) xs(1) dst(1) pg g lp loop
        vector_values_frame[OF po r(2) lp same_in]
      by (simp add: copy_output_to_params_def Let_def get_virtual_list_list_for_input_def
          vector_output_def)
    moreover have "materialized fn msk params s k (?p' ! ?g)"
      using Vector v r(1) xs(1) dst(1) w g lp by (simp add: materialized_def)
    ultimately show ?thesis using lp by simp
  qed
qed

lemma copy_computed_values_to_outputs_ok:
  assumes wf: "wf_network fn" and sok: "state_ok fn msk params s"
    and po: "params_ok fn msk params" and dm: "distinct msk"
    and cmp: "\<forall>i \<in> set (m_outputs fn). input_is_computed (storage s) i"
  shows "\<exists>params'. copy_computed_values_to_outputs fn msk s params = Inr params'
          \<and> length params' = length params
          \<and> (\<forall>j < length (m_inputs fn). params' ! j = params ! j)
          \<and> (\<forall>k < length (m_outputs fn).
                materialized fn msk params s k (params' ! (length (m_inputs fn) + k)))"
proof -
  let ?len = "length (m_inputs fn)"
  let ?I = "\<lambda>pre p. length p = length params
      \<and> (\<forall>j < length params. j < ?len \<or> ?len + length pre \<le> j \<longrightarrow> p ! j = params ! j)
      \<and> (\<forall>k < length pre. materialized fn msk params s k (p ! (?len + k)))"
  have "\<exists>params'. for_each (copy_output_to_params fn msk s) [0..<length (m_outputs fn)] params
           = Inr params' \<and> ?I [0..<length (m_outputs fn)] params'"
  proof (rule for_each_rule[where I = ?I])
    show "?I [] params" by simp
  next
    fix pre k post p
    assume split: "[0..<length (m_outputs fn)] = pre @ k # post" and I: "?I pre p"
    from upt_split[OF split] have pre: "pre = [0..<k]" and k: "k < length (m_outputs fn)"
      by simp_all
    from I pre have lp: "length p = length params"
      and same: "\<forall>j < length params. j < ?len \<or> ?len + k \<le> j \<longrightarrow> p ! j = params ! j"
      and earlier: "\<forall>k' < k. materialized fn msk params s k' (p ! (?len + k'))"
      by simp_all
    from k cmp have c: "input_is_computed (storage s) (m_outputs fn ! k)" by simp
    from copy_output_to_params_step[OF wf sok po dm k c lp same] obtain p' where
      run: "copy_output_to_params fn msk s k p = Inr p'" and lp': "length p' = length params"
      and fr: "\<forall>j < length params. j \<noteq> ?len + k \<longrightarrow> p' ! j = p ! j"
      and m: "materialized fn msk params s k (p' ! (?len + k))" by blast
    from params_ok_output[OF po k] have g: "?len + k < length params" by simp
    have a: "\<forall>j < length params. j < ?len \<or> ?len + Suc k \<le> j \<longrightarrow> p' ! j = params ! j"
      using fr same by auto
    have b: "\<forall>k' < Suc k. materialized fn msk params s k' (p' ! (?len + k'))"
    proof (intro allI impI)
      fix k' assume k': "k' < Suc k"
      show "materialized fn msk params s k' (p' ! (?len + k'))"
      proof (cases "k' = k")
        case True
        with m show ?thesis by simp
      next
        case False
        with k' have lt: "k' < k" by simp
        with g have "?len + k' < length params" "?len + k' \<noteq> ?len + k" by simp_all
        with fr have "p' ! (?len + k') = p ! (?len + k')" by simp
        with earlier lt show ?thesis by simp
      qed
    qed
    from run lp' a b show "\<exists>p'. copy_output_to_params fn msk s k p = Inr p' \<and> ?I (pre @ [k]) p'"
      by (simp add: pre)
  qed
  then obtain params' where run: "copy_computed_values_to_outputs fn msk s params = Inr params'"
    and I: "?I [0..<length (m_outputs fn)] params'"
    by (auto simp: copy_computed_values_to_outputs_def)
  from I po have "\<forall>j < ?len. params' ! j = params ! j" by (simp add: params_ok_def)
  with run I show ?thesis by simp
qed

section \<open>The whole call\<close>

lemma call_ok:
  assumes wf: "wf_network fn" and ac: "acyclic (node_deps fn)"
    and po: "params_ok fn msk params" and dm: "distinct msk" and ne: "msk \<noteq> []"
  shows "\<exists>s0 s params'.
           copy_inputs_to_storage fn params (new_state msk) = Inr s0
         \<and> invoked s0 = []
         \<and> evaluate_network_to_compute_outputs fn msk params s0 = Some (Inr s)
         \<and> copy_computed_values_to_outputs fn msk s params = Inr params'
         \<and> call fn msk params = Some (Inr (params', Some s))
         \<and> state_ok fn msk params s
         \<and> (\<forall>i \<in> set (m_outputs fn). input_is_computed (storage s) i)
         \<and> length params' = length params
         \<and> (\<forall>j < length (m_inputs fn). params' ! j = params ! j)
         \<and> (\<forall>k < length (m_outputs fn).
               materialized fn msk params s k (params' ! (length (m_inputs fn) + k)))"
proof -
  from acyclic_ranked[OF ac] obtain rk where rk: "ranked rk fn" ..
  from copy_inputs_to_storage_ok[OF wf po] obtain s0 where
    b: "copy_inputs_to_storage fn params (new_state msk) = Inr s0"
    and ok0: "state_ok fn msk params s0" and i0: "invoked s0 = []" by blast
  from evaluate_network_to_compute_outputs_ok[OF wf rk ok0] obtain s where
    e: "evaluate_network_to_compute_outputs fn msk params s0 = Some (Inr s)"
    and ok: "state_ok fn msk params s"
    and cmp: "\<forall>i \<in> set (m_outputs fn). input_is_computed (storage s) i" by blast
  from copy_computed_values_to_outputs_ok[OF wf ok po dm cmp] obtain params' where
    c: "copy_computed_values_to_outputs fn msk s params = Inr params'"
    and l: "length params' = length params"
    and f: "\<forall>j < length (m_inputs fn). params' ! j = params ! j"
    and m: "\<forall>k < length (m_outputs fn).
               materialized fn msk params s k (params' ! (length (m_inputs fn) + k))" by blast
  from ne b e c have "call fn msk params = Some (Inr (params', Some s))"
    by (simp add: call_def indices_amount_def)
  with b i0 e c ok cmp l f m show ?thesis by blast
qed

lemma call_normal_result:
  assumes "call fn msk params = Some (Inr (params', Some s))"
  shows "msk \<noteq> [] \<and> (\<exists>s0. copy_inputs_to_storage fn params (new_state msk) = Inr s0
           \<and> evaluate_network_to_compute_outputs fn msk params s0 = Some (Inr s)
           \<and> copy_computed_values_to_outputs fn msk s params = Inr params')"
  using assms
  by (auto simp: call_def indices_amount_def split: if_splits sum.splits option.splits)

section \<open>What the input binding stores\<close>

lemma input_bound_mono:
  assumes "input_bound params i t tg" "values_of t \<subseteq>\<^sub>m values_of t'" "heap t' = heap t @ news"
  shows "input_bound params i t' tg"
proof -
  from assms(1) obtain v where v: "values_of t tg = Some v"
    by (auto simp: input_bound_def split: option.splits)
  with assms(2) have v': "values_of t' tg = Some v" by (auto simp: map_le_def dom_def)
  from assms(1,3) v v' show ?thesis
    by (cases v) (auto simp: input_bound_def nth_append split: MFParam.splits)
qed

lemma bind_single_targets_result:
  assumes "for_each (\<lambda>target. in_storage (set_virtual_list_for_input__non_owning target r)) ts s
             = Inr s'"
  shows "heap s' = heap s \<and> values_of s \<subseteq>\<^sub>m values_of s'
         \<and> (\<forall>tg \<in> set ts. values_of s' tg = Some (VirtualList r))"
proof -
  let ?I = "\<lambda>pre t. heap t = heap s \<and> values_of s \<subseteq>\<^sub>m values_of t
         \<and> (\<forall>tg \<in> set pre. values_of t tg = Some (VirtualList r))"
  have "?I ts s'"
  proof (rule for_each_prefix_invariant[OF assms, where I = ?I])
    show "?I [] s" by simp
  next
    fix pre x post t t'
    assume I: "?I pre t"
      and b: "in_storage (set_virtual_list_for_input__non_owning x r) t = Inr t'"
    from b have f: "values_of t x = None" and t': "t' = with_value x (VirtualList r) t"
      by (simp_all add: in_storage_set_virtual_list_Inr)
    from I f have "x \<notin> set pre" by auto
    moreover from I f have "values_of s \<subseteq>\<^sub>m (values_of t)(x \<mapsto> VirtualList r)"
      by (auto simp: map_le_def dom_def)
    ultimately show "?I (pre @ [x]) t'" using I t' by auto
  qed
  then show ?thesis .
qed

lemma readonly_single_input_Inr:
  "readonly_single_input params i = Inr r \<Longrightarrow> r = ParamRef i"
  by (auto simp: readonly_single_input_def split: if_splits MFParam.splits)

lemma readonly_vector_input_Inr:
  "readonly_vector_input params i = Inr r \<Longrightarrow>
     r = ParamRef i \<and> (\<exists>src. params ! i = ReadonlyVectorArg src)"
  by (auto simp: readonly_vector_input_def split: if_splits MFParam.splits)

lemma copy_input_to_storage_result:
  assumes run: "copy_input_to_storage fn params i s = Inr s'"
  shows "(\<exists>news. heap s' = heap s @ news) \<and> values_of s \<subseteq>\<^sub>m values_of s'
         \<and> (\<forall>tg \<in> set (targets (output_socket fn (m_inputs fn ! i))).
               demandable fn tg \<longrightarrow> input_bound params i s' tg)"
proof (cases "out_category (output_socket fn (m_inputs fn ! i))")
  case Single
  with run obtain r where r: "readonly_single_input params i = Inr r"
    and loop: "for_each (\<lambda>target. in_storage (set_virtual_list_for_input__non_owning target r))
                 (targets (output_socket fn (m_inputs fn ! i))) s = Inr s'"
    by (auto simp: copy_input_to_storage_def Let_def and_then_eq_Inr)
  from readonly_single_input_Inr[OF r] have "r = ParamRef i" .
  with bind_single_targets_result[OF loop] show ?thesis
    by (auto simp: input_bound_def)
next
  case Vector
  with run obtain r where r: "readonly_vector_input params i = Inr r"
    and loop: "for_each (bind_vector_input_target fn params r)
                 (targets (output_socket fn (m_inputs fn ! i))) s = Inr s'"
    by (auto simp: copy_input_to_storage_def Let_def and_then_eq_Inr)
  from readonly_vector_input_Inr[OF r] obtain src where
    ri: "r = ParamRef i" and src: "params ! i = ReadonlyVectorArg src" by blast
  have "fan_out_inv fn (ParamRef i) src s (targets (output_socket fn (m_inputs fn ! i))) s'"
    by (rule fan_out_inv_of_loops) (use loop ri src in simp)
  then have h: "\<exists>news. heap s' = heap s @ news" and le: "values_of s \<subseteq>\<^sub>m values_of s'"
    and served: "\<forall>tg \<in> set (targets (output_socket fn (m_inputs fn ! i))).
        demandable fn tg \<longrightarrow> consumer_served fn (ParamRef i) src s s' tg"
    by (simp_all add: fan_out_inv_def)
  have "input_bound params i s' tg"
    if "tg \<in> set (targets (output_socket fn (m_inputs fn ! i)))" "demandable fn tg" for tg
  proof -
    from served that have "consumer_served fn (ParamRef i) src s s' tg" by blast
    with src show ?thesis
      by (auto simp: consumer_served_def input_bound_def split: if_splits)
  qed
  with h le show ?thesis by blast
qed

lemma copy_inputs_to_storage_result:
  assumes run: "copy_inputs_to_storage fn params s = Inr s'"
  shows "\<forall>i < length (m_inputs fn). \<forall>tg \<in> set (targets (output_socket fn (m_inputs fn ! i))).
           demandable fn tg \<longrightarrow> input_bound params i s' tg"
proof -
  let ?I = "\<lambda>pre t. (\<forall>i \<in> set pre. \<forall>tg \<in> set (targets (output_socket fn (m_inputs fn ! i))).
           demandable fn tg \<longrightarrow> input_bound params i t tg)"
  from run have loop: "for_each (copy_input_to_storage fn params) [0..<length (m_inputs fn)] s = Inr s'"
    by (simp add: copy_inputs_to_storage_def)
  have "?I [0..<length (m_inputs fn)] s'"
  proof (rule for_each_prefix_invariant[OF loop, where I = ?I])
    show "?I [] s" by simp
  next
    fix pre x post t t'
    assume I: "?I pre t" and b: "copy_input_to_storage fn params x t = Inr t'"
    from copy_input_to_storage_result[OF b] obtain news where
      h: "heap t' = heap t @ news" and le: "values_of t \<subseteq>\<^sub>m values_of t'"
      and new: "\<forall>tg \<in> set (targets (output_socket fn (m_inputs fn ! x))).
               demandable fn tg \<longrightarrow> input_bound params x t' tg" by blast
    show "?I (pre @ [x]) t'"
    proof (intro ballI impI)
      fix i tg
      assume i: "i \<in> set (pre @ [x])"
        and tg: "tg \<in> set (targets (output_socket fn (m_inputs fn ! i)))" "demandable fn tg"
      show "input_bound params i t' tg"
      proof (cases "i = x")
        case True
        with new tg show ?thesis by blast
      next
        case False
        with i I tg have "input_bound params i t tg" by auto
        then show ?thesis using le h by (rule input_bound_mono)
      qed
    qed
  qed
  then show ?thesis by simp
qed

section \<open>The example networks\<close>

lemma wf_add_one_network: "wf_network add_one_network"
  by (simp add: wf_defs graph_defs example_defs upt_conv_Cons)

lemma wf_diamond_network: "wf_network diamond_network"
  by (simp add: wf_defs graph_defs example_defs upt_conv_Cons)

lemma wf_vector_network: "wf_network vector_network"
  by (simp add: wf_defs graph_defs example_defs upt_conv_Cons)

lemma acyclic_add_one_network: "acyclic (node_deps add_one_network)"
  by (rule ranked_acyclic[where rk = "\<lambda>n. n"])
     (simp add: ranked_def node_deps_def graph_defs example_defs)

lemma acyclic_diamond_network: "acyclic (node_deps diamond_network)"
  by (rule ranked_acyclic[where rk = "\<lambda>n. n"])
     (simp add: ranked_def node_deps_def graph_defs example_defs)

lemma acyclic_vector_network: "acyclic (node_deps vector_network)"
  by (rule ranked_acyclic[where rk = "\<lambda>n. n"])
     (simp add: ranked_def node_deps_def graph_defs example_defs)

lemma params_ok_add_one_network:
  "params_ok add_one_network [0, 1, 2]
     [ReadonlySingleArg [Some 1, Some 2, Some 3], SingleOutputArg [None, None, None]]"
  "params_ok add_one_network [0, 2]
     [ReadonlySingleArg [Some 1, Some 2, Some 3], SingleOutputArg [Some 7, Some 8, Some 9]]"
  by (simp_all add: wf_defs graph_defs example_defs min_array_size_def upt_conv_Cons)

lemma params_ok_diamond_network:
  "params_ok diamond_network [0, 1, 2]
     [ReadonlySingleArg [Some 1, Some 2, Some 3], SingleOutputArg [None, None, None]]"
  by (simp add: wf_defs graph_defs example_defs min_array_size_def upt_conv_Cons)

lemma params_ok_vector_network:
  "params_ok vector_network [0, 1]
     [ReadonlyVectorArg [[1], [2, 3]], VectorOutputArg [[], []], SingleOutputArg [None, None],
      VectorOutputArg [[], []]]"
  "params_ok vector_network [0, 2]
     [ReadonlyVectorArg [[1], [2, 3], [4]], VectorOutputArg [[], [], []],
      SingleOutputArg [None, None, None], VectorOutputArg [[], [], []]]"
  by (simp_all add: wf_defs graph_defs example_defs min_array_size_def upt_conv_Cons)

lemmas run_defs =
  engine_defs storage_defs buffer_defs graph_defs example_defs scheduler_loop.simps upt_conv_Cons

lemma add_one_network_run:
  "\<exists>s. call add_one_network [0, 1, 2]
         [ReadonlySingleArg [Some 1, Some 2, Some 3], SingleOutputArg [None, None, None]]
       = Some (Inr ([ReadonlySingleArg [Some 1, Some 2, Some 3],
                     SingleOutputArg [Some 2, Some 3, Some 4]], Some s))
     \<and> invoked s = [1] \<and> heap s = [ArrayBuf [Some 2, Some 3, Some 4]]"
  by (simp add: run_defs)

lemma add_one_network_run_sparse:
  "\<exists>s. call add_one_network [0, 2]
         [ReadonlySingleArg [Some 1, Some 2, Some 3], SingleOutputArg [Some 7, Some 8, Some 9]]
       = Some (Inr ([ReadonlySingleArg [Some 1, Some 2, Some 3],
                     SingleOutputArg [Some 2, Some 8, Some 4]], Some s))
     \<and> invoked s = [1]"
  by (simp add: run_defs)

lemma diamond_network_run:
  "\<exists>s. call diamond_network [0, 1, 2]
         [ReadonlySingleArg [Some 1, Some 2, Some 3], SingleOutputArg [None, None, None]]
       = Some (Inr ([ReadonlySingleArg [Some 1, Some 2, Some 3],
                     SingleOutputArg [Some 3, Some 6, Some 9]], Some s))
     \<and> invoked s = [1, 3, 2, 4]"
  by (simp add: run_defs)

lemma vector_network_run:
  "\<exists>s. call vector_network [0, 1]
         [ReadonlyVectorArg [[1], [2, 3]], VectorOutputArg [[], []], SingleOutputArg [None, None],
          VectorOutputArg [[], []]]
       = Some (Inr ([ReadonlyVectorArg [[1], [2, 3]], VectorOutputArg [[1, 0], [2, 3, 0]],
                     SingleOutputArg [Some 1, Some 2], VectorOutputArg [[1, 0, 0], [2, 3, 0, 0]]],
                    Some s))
     \<and> invoked s = [1, 3, 2]
     \<and> heap s = [VectorBuf [[1, 0], [2, 3, 0]], VectorBuf [[1, 0, 0], [2, 3, 0, 0]],
                 ArrayBuf [Some 1, Some 2]]
     \<and> m_vector_arrays (storage s) = [0, 1] \<and> m_arrays (storage s) = [2]"
  by (simp add: run_defs)

section \<open>A normal return has read every requested output\<close>

lemma for_each_success_each:
  assumes "for_each body xs s = Inr s'" "x \<in> set xs"
  shows "\<exists>t t'. body x t = Inr t'"
  using assms
proof (induction xs arbitrary: s)
  case Nil
  then show ?case by simp
next
  case (Cons y ys)
  from Cons.prems(1) obtain t where t: "body y s = Inr t" "for_each body ys t = Inr s'"
    by (auto split: sum.splits)
  show ?case
  proof (cases "x = y")
    case True
    with t(1) show ?thesis by blast
  next
    case False
    with Cons.prems(2) have "x \<in> set ys" by simp
    from Cons.IH[OF t(2) this] show ?thesis .
  qed
qed

lemma copy_output_to_params_computed:
  assumes "copy_output_to_params fn msk s k p = Inr p'"
  shows "input_is_computed (storage s) (m_outputs fn ! k)"
proof (cases "in_category (input_socket fn (m_outputs fn ! k))")
  case Single
  with assms obtain r where "get_virtual_list_for_input (storage s) (m_outputs fn ! k) = Inr r"
    by (auto simp: copy_output_to_params_def Let_def and_then_eq_Inr)
  then show ?thesis
    by (auto simp: get_virtual_list_for_input_def input_is_computed_def split: option.splits)
next
  case Vector
  with assms obtain r where "get_virtual_list_list_for_input (storage s) (m_outputs fn ! k) = Inr r"
    by (auto simp: copy_output_to_params_def Let_def and_then_eq_Inr)
  then show ?thesis
    by (auto simp: get_virtual_list_list_for_input_def input_is_computed_def split: option.splits)
qed

lemma normal_return_outputs_computed:
  assumes "call fn msk params = Some (Inr (params', Some s))"
  shows "\<forall>i \<in> set (m_outputs fn). input_is_computed (storage s) i"
proof
  fix i assume "i \<in> set (m_outputs fn)"
  then obtain k where k: "k < length (m_outputs fn)" "i = m_outputs fn ! k"
    by (auto simp: in_set_conv_nth)
  from call_normal_result[OF assms]
  have "for_each (copy_output_to_params fn msk s) [0..<length (m_outputs fn)] params = Inr params'"
    by (auto simp: copy_computed_values_to_outputs_def)
  from for_each_success_each[OF this, of k] k(1)
  obtain p p' where "copy_output_to_params fn msk s k p = Inr p'" by auto
  from copy_output_to_params_computed[OF this] k(2)
  show "input_is_computed (storage s) i" by simp
qed

section \<open>The outcome of the output copy, spelled out\<close>

lemma materialized_single:
  assumes "materialized fn msk params s k q"
    and "in_category (input_socket fn (m_outputs fn ! k)) = Single"
  shows "\<exists>r xs dst dst'. values_of s (m_outputs fn ! k) = Some (VirtualList r)
           \<and> single_values params (heap s) r = Inr xs
           \<and> params ! (length (m_inputs fn) + k) = SingleOutputArg dst
           \<and> q = SingleOutputArg dst' \<and> length dst' = length dst
           \<and> (\<forall>i < length dst. dst' ! i = (if i \<in> set msk then xs ! i else dst ! i))"
  using assms
  by (auto simp: materialized_def written_single_def list_all_upt
           split: option.splits stored.splits MFParam.splits sum.splits)

lemma materialized_vector:
  assumes "materialized fn msk params s k q"
    and "in_category (input_socket fn (m_outputs fn ! k)) = Vector"
  shows "\<exists>r xs dst dst'. values_of s (m_outputs fn ! k) = Some (VirtualListList r)
           \<and> vector_values params (heap s) r = Inr xs
           \<and> params ! (length (m_inputs fn) + k) = VectorOutputArg dst
           \<and> q = VectorOutputArg dst' \<and> length dst' = length dst
           \<and> (\<forall>i < length dst. dst' ! i = (if i \<in> set msk then dst ! i @ xs ! i else dst ! i))"
  using assms
  by (auto simp: materialized_def written_vector_def list_all_upt
           split: option.splits stored.splits MFParam.splits sum.splits)

lemma add_one_network_run_any_destination:
  "\<exists>s. call add_one_network [0, 2]
         [ReadonlySingleArg [Some 1, Some 2, Some 3], SingleOutputArg [d0, d1, d2]]
       = Some (Inr ([ReadonlySingleArg [Some 1, Some 2, Some 3],
                     SingleOutputArg [Some 2, d1, Some 4]], Some s))"
  by (simp add: run_defs)

lemma add_one_network_run_full_mask:
  "\<exists>s. call add_one_network [0, 1, 2]
         [ReadonlySingleArg [Some 1, Some 2, Some 3], SingleOutputArg [d0, d1, d2]]
       = Some (Inr ([ReadonlySingleArg [Some 1, Some 2, Some 3],
                     SingleOutputArg [Some 2, Some 3, Some 4]], Some s))"
  by (simp add: run_defs)

text \<open>
  C2 (idempotent memoization). For every well-formed acyclic graph and every call whose
  parameters fit the declared inputs and outputs, the call returns, and the trace of the
  leaf-function invocations of the call, which \<^verbatim>\<open>compute_and_forward_outputs\<close> extends by
  the node at each \<^verbatim>\<open>function.call\<close>, has no node twice: every function node is invoked at
  most once, however many requested outputs or consumers demand its output sockets. A call
  with an empty mask has no state and invokes nothing.
\<close>

theorem function_node_invoked_at_most_once:
  assumes "wf_network fn" and "acyclic (node_deps fn)" and "params_ok fn msk params"
    and "distinct msk"
  shows "\<exists>params' r. call fn msk params = Some (Inr (params', r))
          \<and> (\<forall>s. r = Some s \<longrightarrow>
                distinct (invoked s)
                \<and> (\<forall>n \<in> set (invoked s). n < length (nodes (network fn))
                      \<and> is_function (node_of fn n)))"
proof (cases "msk = []")
  case True
  then have "call fn msk params = Some (Inr (params, None))"
    by (simp add: call_def indices_amount_def)
  then show ?thesis by simp
next
  case False
  from call_ok[OF assms False] obtain s params' where
    c: "call fn msk params = Some (Inr (params', Some s))"
    and ok: "state_ok fn msk params s" by blast
  from ok have "invoked_ok fn s" by (simp add: state_ok_def)
  then have "distinct (invoked s)"
    "\<forall>n \<in> set (invoked s). n < length (nodes (network fn)) \<and> is_function (node_of fn n)"
    by (simp_all add: invoked_ok_def)
  with c show ?thesis by simp
qed

theorem function_node_invoked_at_most_once_witness:
  "wf_network vector_network \<and> acyclic (node_deps vector_network)
   \<and> params_ok vector_network [0, 1]
       [ReadonlyVectorArg [[1], [2, 3]], VectorOutputArg [[], []], SingleOutputArg [None, None],
        VectorOutputArg [[], []]]
   \<and> distinct [0, 1 :: nat]
   \<and> (\<exists>params' s. call vector_network [0, 1]
         [ReadonlyVectorArg [[1], [2, 3]], VectorOutputArg [[], []], SingleOutputArg [None, None],
          VectorOutputArg [[], []]] = Some (Inr (params', Some s))
        \<and> invoked s = [1, 3, 2] \<and> distinct (invoked s))"
proof -
  let ?ps = "[ReadonlyVectorArg [[1], [2, 3]], VectorOutputArg [[], []], SingleOutputArg [None, None],
        VectorOutputArg [[], []]]"
  have d: "distinct [0, 1 :: nat]" by simp
  from function_node_invoked_at_most_once[OF wf_vector_network acyclic_vector_network
      params_ok_vector_network(1) d]
  obtain params' r where c: "call vector_network [0, 1] ?ps = Some (Inr (params', r))"
    and a: "\<forall>s. r = Some s \<longrightarrow> distinct (invoked s)" by blast
  from vector_network_run obtain s ps' where
    run: "call vector_network [0, 1] ?ps = Some (Inr (ps', Some s))" and i: "invoked s = [1, 3, 2]"
    by blast
  from c run have "r = Some s" by simp
  with a have "distinct (invoked s)" by simp
  with run i wf_vector_network acyclic_vector_network params_ok_vector_network(1) d
  show ?thesis by blast
qed

text \<open>
  C3 (termination and completeness). For every well-formed acyclic graph and parameters
  that fit the declared inputs and outputs: the scheduler loop, started on the state the
  input binding leaves, returns (the loop returns only with an empty stack), without a
  fault, and in the state it returns every requested output socket has a computed value.
  With a non-empty mask of distinct indices the call then returns normally, in that state,
  with every declared output's destination written from the computed value. Moreover
  whenever a call, of any graph, returns normally with a state, every requested output
  socket has a computed value in that state.
\<close>

theorem scheduler_terminates_with_outputs_computed:
  "(wf_network fn \<and> acyclic (node_deps fn) \<and> params_ok fn msk params
      \<longrightarrow> (\<exists>s0 s.
           copy_inputs_to_storage fn params (new_state msk) = Inr s0
         \<and> scheduler_loop fn msk params (rev (map InputSocket (m_outputs fn)), s0) = Some (Inr s)
         \<and> (\<forall>i \<in> set (m_outputs fn). input_is_computed (storage s) i)
         \<and> (distinct msk \<and> msk \<noteq> [] \<longrightarrow>
              (\<exists>params'. call fn msk params = Some (Inr (params', Some s))
                 \<and> (\<forall>k < length (m_outputs fn).
                       materialized fn msk params s k (params' ! (length (m_inputs fn) + k)))))))
   \<and> (\<forall>params' s. call fn msk params = Some (Inr (params', Some s))
         \<longrightarrow> (\<forall>i \<in> set (m_outputs fn). input_is_computed (storage s) i))"
  (is "(?H \<longrightarrow> ?G) \<and> ?N")
proof (intro conjI impI)
  assume ?H
  then have wf: "wf_network fn" and ac: "acyclic (node_deps fn)" and po: "params_ok fn msk params"
    by simp_all
  from acyclic_ranked[OF ac] obtain rk where rk: "ranked rk fn" ..
  from copy_inputs_to_storage_ok[OF wf po] obtain s0 where
    b: "copy_inputs_to_storage fn params (new_state msk) = Inr s0"
    and ok0: "state_ok fn msk params s0" by blast
  from evaluate_network_to_compute_outputs_ok[OF wf rk ok0] obtain s where
    e: "evaluate_network_to_compute_outputs fn msk params s0 = Some (Inr s)"
    and ok: "state_ok fn msk params s"
    and cmp: "\<forall>i \<in> set (m_outputs fn). input_is_computed (storage s) i" by blast
  have "\<exists>params'. call fn msk params = Some (Inr (params', Some s))
                 \<and> (\<forall>k < length (m_outputs fn).
                       materialized fn msk params s k (params' ! (length (m_inputs fn) + k)))"
    if "distinct msk \<and> msk \<noteq> []"
  proof -
    from that have dm: "distinct msk" and ne: "msk \<noteq> []" by simp_all
    from copy_computed_values_to_outputs_ok[OF wf ok po dm cmp] obtain params' where
      c: "copy_computed_values_to_outputs fn msk s params = Inr params'"
      and m: "\<forall>k < length (m_outputs fn).
               materialized fn msk params s k (params' ! (length (m_inputs fn) + k))" by blast
    from ne b e c have "call fn msk params = Some (Inr (params', Some s))"
      by (simp add: call_def indices_amount_def)
    with m show ?thesis by blast
  qed
  with b e cmp show ?G
    unfolding evaluate_network_to_compute_outputs_def by blast
next
  show ?N using normal_return_outputs_computed[of fn msk params] by blast
qed

theorem scheduler_terminates_with_outputs_computed_witness:
  "wf_network diamond_network \<and> acyclic (node_deps diamond_network)
   \<and> params_ok diamond_network [0, 1, 2]
       [ReadonlySingleArg [Some 1, Some 2, Some 3], SingleOutputArg [None, None, None]]
   \<and> distinct [0, 1, 2 :: nat] \<and> [0, 1, 2 :: nat] \<noteq> []
   \<and> (\<exists>s. call diamond_network [0, 1, 2]
         [ReadonlySingleArg [Some 1, Some 2, Some 3], SingleOutputArg [None, None, None]]
        = Some (Inr ([ReadonlySingleArg [Some 1, Some 2, Some 3],
                      SingleOutputArg [Some 3, Some 6, Some 9]], Some s))
        \<and> input_is_computed (storage s) 5)"
proof -
  let ?ps = "[ReadonlySingleArg [Some 1, Some 2, Some 3], SingleOutputArg [None, None, None]]"
  have d: "distinct [0, 1, 2 :: nat]" and ne: "[0, 1, 2 :: nat] \<noteq> []" by simp_all
  have h: "wf_network diamond_network \<and> acyclic (node_deps diamond_network)
      \<and> params_ok diamond_network [0, 1, 2] ?ps"
    using wf_diamond_network acyclic_diamond_network params_ok_diamond_network by simp
  from scheduler_terminates_with_outputs_computed[of diamond_network "[0, 1, 2]" ?ps,
      THEN conjunct1, THEN mp, OF h] d ne
  obtain s params' where c: "call diamond_network [0, 1, 2] ?ps = Some (Inr (params', Some s))"
    and a: "\<forall>i \<in> set (m_outputs diamond_network). input_is_computed (storage s) i" by blast
  from a have five: "input_is_computed (storage s) 5" by (simp add: diamond_network_def)
  from diamond_network_run obtain t where
    run: "call diamond_network [0, 1, 2] ?ps
        = Some (Inr ([ReadonlySingleArg [Some 1, Some 2, Some 3],
                      SingleOutputArg [Some 3, Some 6, Some 9]], Some t))" by blast
  with c have "t = s" by simp
  with run five wf_diamond_network acyclic_diamond_network params_ok_diamond_network d ne
  show ?thesis by blast
qed

text \<open>
  C5 (scheduler step semantics). The main loop runs one step on the stack until the stack
  is empty, and a fault of a step ends it. A step examines the top of the stack. An input
  socket on top is popped when its value is computed and otherwise stays, with its origin
  output socket pushed above it. For an output socket \<open>out\<close> on top, of the function node
  \<open>n\<close> (with fewer than \<open>2^32\<close> inputs, the range of the counter of line 91), \<open>missing\<close>
  being the inputs of \<open>n\<close> that are not computed, in order: when there are some, all of
  them are pushed in this step, the last one on top, and \<open>out\<close> stays below them; when
  there are none, the step invokes \<open>n\<close> and pops \<open>out\<close>. In a state of an evaluation of a
  well-formed graph in which \<open>n\<close> was not invoked, that invocation succeeds, adds \<open>n\<close> to
  the trace of invocations and leaves a computed value at every consumer the scheduler can
  demand of every output socket of \<open>n\<close>.
\<close>

theorem scheduler_step_semantics:
  assumes n: "n = out_node (output_socket fn out)"
    and missing: "missing = filter (\<lambda>i. \<not> input_is_computed (storage s) i) (inputs (node_of fn n))"
  shows "(stack \<noteq> [] \<longrightarrow>
            scheduler_loop fn msk params (stack, s) =
              (case scheduler_step fn msk params (stack, s) of
                 Inl e \<Rightarrow> Some (Inl e)
               | Inr cfg' \<Rightarrow> scheduler_loop fn msk params cfg'))
       \<and> scheduler_loop fn msk params ([], s) = Some (Inr s)
       \<and> (input_is_computed (storage s) i \<longrightarrow>
            scheduler_step fn msk params (InputSocket i # rest, s) = Inr (rest, s))
       \<and> (\<not> input_is_computed (storage s) i \<longrightarrow>
            scheduler_step fn msk params (InputSocket i # rest, s)
              = Inr (OutputSocket (origin (input_socket fn i)) # InputSocket i # rest, s))
       \<and> (is_function (node_of fn n) \<and> length (inputs (node_of fn n)) < 2 ^ 32 \<longrightarrow>
            (missing \<noteq> [] \<longrightarrow>
               scheduler_step fn msk params (OutputSocket out # rest, s)
                 = Inr (rev (map InputSocket missing) @ OutputSocket out # rest, s))
          \<and> (missing = [] \<longrightarrow>
               scheduler_step fn msk params (OutputSocket out # rest, s)
                 = and_then (compute_and_forward_outputs fn msk params n s) (\<lambda>s'. Inr (rest, s')))
          \<and> (missing = [] \<and> wf_network fn \<and> state_ok fn msk params s
              \<and> n < length (nodes (network fn)) \<and> n \<notin> set (invoked s) \<longrightarrow>
               (\<exists>s'. scheduler_step fn msk params (OutputSocket out # rest, s) = Inr (rest, s')
                  \<and> invoked s' = invoked s @ [n]
                  \<and> (\<forall>out' \<in> set (outputs (node_of fn n)).
                        \<forall>tg \<in> set (targets (output_socket fn out')).
                          demandable fn tg \<longrightarrow> input_is_computed (storage s') tg))))"
proof -
  have loop: "stack \<noteq> [] \<longrightarrow>
            scheduler_loop fn msk params (stack, s) =
              (case scheduler_step fn msk params (stack, s) of
                 Inl e \<Rightarrow> Some (Inl e)
               | Inr cfg' \<Rightarrow> scheduler_loop fn msk params cfg')"
    by (subst scheduler_loop.simps) simp
  have stop: "scheduler_loop fn msk params ([], s) = Some (Inr s)"
    by (subst scheduler_loop.simps) simp
  have inp: "scheduler_step fn msk params (InputSocket i # rest, s) =
     (if input_is_computed (storage s) i then Inr (rest, s)
      else Inr (OutputSocket (origin (input_socket fn i)) # InputSocket i # rest, s))"
    by (rule scheduler_step_input)
  have out: "(missing \<noteq> [] \<longrightarrow>
               scheduler_step fn msk params (OutputSocket out # rest, s)
                 = Inr (rev (map InputSocket missing) @ OutputSocket out # rest, s))
          \<and> (missing = [] \<longrightarrow>
               scheduler_step fn msk params (OutputSocket out # rest, s)
                 = and_then (compute_and_forward_outputs fn msk params n s) (\<lambda>s'. Inr (rest, s')))"
    if "is_function (node_of fn n)" "length (inputs (node_of fn n)) < 2 ^ 32"
    using scheduler_step_output[of fn out msk params rest s] that n missing
    by (simp add: Let_def)
  have inv: "\<exists>s'. scheduler_step fn msk params (OutputSocket out # rest, s) = Inr (rest, s')
                  \<and> invoked s' = invoked s @ [n]
                  \<and> (\<forall>out' \<in> set (outputs (node_of fn n)).
                        \<forall>tg \<in> set (targets (output_socket fn out')).
                          demandable fn tg \<longrightarrow> input_is_computed (storage s') tg)"
    if fu: "is_function (node_of fn n)" and len: "length (inputs (node_of fn n)) < 2 ^ 32"
      and m: "missing = []" and wf: "wf_network fn" and ok: "state_ok fn msk params s"
      and nl: "n < length (nodes (network fn))" and ni: "n \<notin> set (invoked s)"
  proof -
    from m missing have "\<forall>i \<in> set (inputs (node_of fn n)). values_of s i \<noteq> None"
      by (auto simp: filter_empty_conv input_is_computed_def)
    with nl fu have rdy: "node_ready fn s n" by (simp add: node_ready_def)
    from compute_and_forward_outputs_ok[OF wf ok rdy ni] obtain s' where
      s': "compute_and_forward_outputs fn msk params n s = Inr s'"
      and ok': "state_ok fn msk params s'" and inv': "invoked s' = invoked s @ [n]" by blast
    from out[OF fu len] m s'
    have run: "scheduler_step fn msk params (OutputSocket out # rest, s) = Inr (rest, s')" by simp
    from ok' have co: "computed_ok fn s'" by (simp add: state_ok_def)
    note wn = wf_network_node[OF wf nl]
    have "input_is_computed (storage s') tg"
      if o: "out' \<in> set (outputs (node_of fn n))"
        and tg: "tg \<in> set (targets (output_socket fn out'))" "demandable fn tg" for out' tg
    proof -
      from o obtain k where k: "k < length (outputs (node_of fn n))" "out' = outputs (node_of fn n) ! k"
        by (auto simp: in_set_conv_nth)
      from wf_node_output[OF wn k(1)] k(2)
      have ol: "out' < length (output_sockets (network fn))"
        and on: "out_node (output_socket fn out') = n" by simp_all
      from wf_output_socket_target[OF wf_network_output_socket[OF wf ol] tg(1)]
      have tl: "tg < length (input_sockets (network fn))"
        and org: "origin (input_socket fn tg) = out'" by simp_all
      from org on inv' have "sourced fn s' tg" by (simp add: sourced_def)
      from computed_okD(2)[OF co tl this tg(2)] show ?thesis by (simp add: input_is_computed_def)
    qed
    with run inv' show ?thesis by blast
  qed
  from loop stop inp out inv show ?thesis by auto
qed

theorem scheduler_step_semantics_witness:
  "4 = out_node (output_socket diamond_network 4)
   \<and> [3, 4] = filter (\<lambda>i. \<not> input_is_computed
                 (storage (with_value 0 (VirtualList (ParamRef 0)) (new_state [0, 1, 2]))) i)
               (inputs (node_of diamond_network 4))
   \<and> input_is_computed (storage (with_value 0 (VirtualList (ParamRef 0)) (new_state [0, 1, 2]))) 0
   \<and> scheduler_step diamond_network [0, 1, 2]
        [ReadonlySingleArg [Some 1, Some 2, Some 3], SingleOutputArg [None, None, None]]
        (InputSocket 0 # [OutputSocket 1, InputSocket 1],
         with_value 0 (VirtualList (ParamRef 0)) (new_state [0, 1, 2]))
      = Inr ([OutputSocket 1, InputSocket 1],
             with_value 0 (VirtualList (ParamRef 0)) (new_state [0, 1, 2]))
   \<and> \<not> input_is_computed (storage (with_value 0 (VirtualList (ParamRef 0)) (new_state [0, 1, 2]))) 5
   \<and> scheduler_step diamond_network [0, 1, 2]
        [ReadonlySingleArg [Some 1, Some 2, Some 3], SingleOutputArg [None, None, None]]
        (InputSocket 5 # [], with_value 0 (VirtualList (ParamRef 0)) (new_state [0, 1, 2]))
      = Inr ([OutputSocket 4, InputSocket 5],
             with_value 0 (VirtualList (ParamRef 0)) (new_state [0, 1, 2]))
   \<and> is_function (node_of diamond_network 4)
   \<and> length (inputs (node_of diamond_network 4)) < 2 ^ 32
   \<and> scheduler_step diamond_network [0, 1, 2]
        [ReadonlySingleArg [Some 1, Some 2, Some 3], SingleOutputArg [None, None, None]]
        (OutputSocket 4 # [InputSocket 5],
         with_value 0 (VirtualList (ParamRef 0)) (new_state [0, 1, 2]))
      = Inr ([InputSocket 4, InputSocket 3, OutputSocket 4, InputSocket 5],
             with_value 0 (VirtualList (ParamRef 0)) (new_state [0, 1, 2]))
   \<and> 1 = out_node (output_socket diamond_network 1)
   \<and> [] = filter (\<lambda>i. \<not> input_is_computed
                 (storage (with_value 0 (VirtualList (ParamRef 0)) (new_state [0, 1, 2]))) i)
               (inputs (node_of diamond_network 1))
   \<and> is_function (node_of diamond_network 1)
   \<and> length (inputs (node_of diamond_network 1)) < 2 ^ 32
   \<and> wf_network diamond_network
   \<and> state_ok diamond_network [0, 1, 2]
        [ReadonlySingleArg [Some 1, Some 2, Some 3], SingleOutputArg [None, None, None]]
        (with_value 0 (VirtualList (ParamRef 0)) (new_state [0, 1, 2]))
   \<and> 1 < length (nodes (network diamond_network))
   \<and> 1 \<notin> set (invoked (with_value 0 (VirtualList (ParamRef 0)) (new_state [0, 1, 2])))
   \<and> (\<exists>s'. scheduler_step diamond_network [0, 1, 2]
              [ReadonlySingleArg [Some 1, Some 2, Some 3], SingleOutputArg [None, None, None]]
              (OutputSocket 1 # [InputSocket 1],
               with_value 0 (VirtualList (ParamRef 0)) (new_state [0, 1, 2]))
            = Inr ([InputSocket 1], s')
          \<and> invoked s' = [1]
          \<and> input_is_computed (storage s') 1 \<and> input_is_computed (storage s') 2)"
proof -
  let ?s = "with_value 0 (VirtualList (ParamRef 0)) (new_state [0, 1, 2])"
  let ?ps = "[ReadonlySingleArg [Some 1, Some 2, Some 3], SingleOutputArg [None, None, None]]"
  have n: "4 = out_node (output_socket diamond_network 4)"
    by (simp add: graph_defs example_defs)
  have m: "[3, 4] = filter (\<lambda>i. \<not> input_is_computed (storage ?s) i)
               (inputs (node_of diamond_network 4))"
    by (simp add: graph_defs example_defs storage_defs with_value_def new_state_def)
  have c: "input_is_computed (storage ?s) 0" "\<not> input_is_computed (storage ?s) 5"
    by (simp_all add: storage_defs with_value_def new_state_def)
  have f: "is_function (node_of diamond_network 4)"
    "length (inputs (node_of diamond_network 4)) < 2 ^ 32"
    by (simp_all add: graph_defs example_defs)
  note t = scheduler_step_semantics[OF n m, of _ "[0, 1, 2]" ?ps _ _]
  from t[of "[]" 0 "[OutputSocket 1, InputSocket 1]"] c(1)
  have a: "scheduler_step diamond_network [0, 1, 2] ?ps
        (InputSocket 0 # [OutputSocket 1, InputSocket 1], ?s)
      = Inr ([OutputSocket 1, InputSocket 1], ?s)" by blast
  from t[of "[]" 5 "[]"] c(2)
  have a': "scheduler_step diamond_network [0, 1, 2] ?ps (InputSocket 5 # [], ?s)
      = Inr ([OutputSocket 4, InputSocket 5], ?s)"
    by (simp add: graph_defs example_defs)
  from t[of "[]" 0 "[InputSocket 5]"] f
  have b: "scheduler_step diamond_network [0, 1, 2] ?ps (OutputSocket 4 # [InputSocket 5], ?s)
      = Inr ([InputSocket 4, InputSocket 3, OutputSocket 4, InputSocket 5], ?s)" by simp
  have n1: "1 = out_node (output_socket diamond_network 1)"
    by (simp add: graph_defs example_defs)
  have m1: "[] = filter (\<lambda>i. \<not> input_is_computed (storage ?s) i)
               (inputs (node_of diamond_network 1))"
    by (simp add: graph_defs example_defs storage_defs with_value_def new_state_def)
  have f1: "is_function (node_of diamond_network 1)"
    "length (inputs (node_of diamond_network 1)) < 2 ^ 32"
    "1 < length (nodes (network diamond_network))" "1 \<notin> set (invoked ?s)"
    by (simp_all add: graph_defs example_defs with_value_def new_state_def)
  have bound: "copy_inputs_to_storage diamond_network ?ps (new_state [0, 1, 2]) = Inr ?s"
    by (simp add: run_defs with_value_def)
  from copy_inputs_to_storage_ok[OF wf_diamond_network params_ok_diamond_network] bound
  have ok: "state_ok diamond_network [0, 1, 2] ?ps ?s" by simp
  from scheduler_step_semantics[OF n1 m1, of "[]" "[0, 1, 2]" ?ps 0 "[InputSocket 1]"]
    f1 wf_diamond_network ok
  obtain s' where s': "scheduler_step diamond_network [0, 1, 2] ?ps
              (OutputSocket 1 # [InputSocket 1], ?s) = Inr ([InputSocket 1], s')"
    "invoked s' = invoked ?s @ [1]"
    "\<forall>out' \<in> set (outputs (node_of diamond_network 1)).
        \<forall>tg \<in> set (targets (output_socket diamond_network out')).
           demandable diamond_network tg \<longrightarrow> input_is_computed (storage s') tg"
    by blast
  from s'(2) have i: "invoked s' = [1]" by (simp add: with_value_def new_state_def)
  from s'(3) have t12: "input_is_computed (storage s') 1" "input_is_computed (storage s') 2"
    by (simp_all add: graph_defs example_defs demandable_def)
  from s'(1) i t12
  have d: "\<exists>s'. scheduler_step diamond_network [0, 1, 2] ?ps
              (OutputSocket 1 # [InputSocket 1], ?s) = Inr ([InputSocket 1], s')
          \<and> invoked s' = [1]
          \<and> input_is_computed (storage s') 1 \<and> input_is_computed (storage s') 2" by blast
  from n m c a a' f b n1 m1 f1 wf_diamond_network ok d show ?thesis by blast
qed

text \<open>
  C7 (boundary output materialization). For a well-formed acyclic graph, a non-empty mask
  of distinct indices and parameters that fit the declared inputs and outputs, the call
  returns normally, and the parameters it returns differ from those passed only in the
  destinations of the declared outputs: for the declared output \<open>k\<close>, with \<open>xs\<close> the
  contents of the view stored for its socket and \<open>dst\<close> the caller's destination, the
  returned destination has the length of \<open>dst\<close> and, at an index \<open>i\<close> of the mask, the
  element \<open>xs ! i\<close> (Single) or the collection \<open>dst ! i\<close> extended by a copy of \<open>xs ! i\<close>
  (Vector, which is \<open>xs ! i\<close> for a destination passed empty), and at every other index
  what \<open>dst\<close> held. In particular, for the node \<open>f(x) = x + 1\<close> wired from the network
  input to the network output, the input \<open>[1, 2, 3]\<close> with the mask \<open>{0, 1, 2}\<close> yields
  \<open>[2, 3, 4]\<close>, and with the mask \<open>{0, 2}\<close> positions 0 and 2 are written and position 1
  is left as it was.
\<close>

theorem boundary_output_materialization:
  "(wf_network fn \<and> acyclic (node_deps fn) \<and> params_ok fn msk params \<and> distinct msk \<and> msk \<noteq> []
     \<longrightarrow> (\<exists>params' s.
            call fn msk params = Some (Inr (params', Some s))
          \<and> length params' = length params
          \<and> (\<forall>j < length (m_inputs fn). params' ! j = params ! j)
          \<and> (\<forall>k < length (m_outputs fn).
               (in_category (input_socket fn (m_outputs fn ! k)) = Single \<longrightarrow>
                  (\<exists>r xs dst dst'.
                      values_of s (m_outputs fn ! k) = Some (VirtualList r)
                    \<and> single_values params (heap s) r = Inr xs
                    \<and> params ! (length (m_inputs fn) + k) = SingleOutputArg dst
                    \<and> params' ! (length (m_inputs fn) + k) = SingleOutputArg dst'
                    \<and> length dst' = length dst
                    \<and> (\<forall>i < length dst. dst' ! i = (if i \<in> set msk then xs ! i else dst ! i))))
             \<and> (in_category (input_socket fn (m_outputs fn ! k)) = Vector \<longrightarrow>
                  (\<exists>r xs dst dst'.
                      values_of s (m_outputs fn ! k) = Some (VirtualListList r)
                    \<and> vector_values params (heap s) r = Inr xs
                    \<and> params ! (length (m_inputs fn) + k) = VectorOutputArg dst
                    \<and> params' ! (length (m_inputs fn) + k) = VectorOutputArg dst'
                    \<and> length dst' = length dst
                    \<and> (\<forall>i < length dst.
                          dst' ! i = (if i \<in> set msk then dst ! i @ xs ! i else dst ! i)))))))
   \<and> (\<exists>s. call add_one_network [0, 1, 2]
             [ReadonlySingleArg [Some 1, Some 2, Some 3], SingleOutputArg [d0, d1, d2]]
           = Some (Inr ([ReadonlySingleArg [Some 1, Some 2, Some 3],
                         SingleOutputArg [Some 2, Some 3, Some 4]], Some s)))
   \<and> (\<exists>s. call add_one_network [0, 2]
             [ReadonlySingleArg [Some 1, Some 2, Some 3], SingleOutputArg [d0, d1, d2]]
           = Some (Inr ([ReadonlySingleArg [Some 1, Some 2, Some 3],
                         SingleOutputArg [Some 2, d1, Some 4]], Some s)))"
  (is "(?H \<longrightarrow> ?G) \<and> ?E1 \<and> ?E2")
proof (intro conjI impI)
  assume ?H
  then have h: "wf_network fn" "acyclic (node_deps fn)" "params_ok fn msk params" "distinct msk"
    "msk \<noteq> []" by simp_all
  from call_ok[OF h] obtain s params' where
    c: "call fn msk params = Some (Inr (params', Some s))"
    and l: "length params' = length params"
    and f: "\<forall>j < length (m_inputs fn). params' ! j = params ! j"
    and m: "\<forall>k < length (m_outputs fn).
               materialized fn msk params s k (params' ! (length (m_inputs fn) + k))" by blast
  have "(in_category (input_socket fn (m_outputs fn ! k)) = Single \<longrightarrow>
                  (\<exists>r xs dst dst'.
                      values_of s (m_outputs fn ! k) = Some (VirtualList r)
                    \<and> single_values params (heap s) r = Inr xs
                    \<and> params ! (length (m_inputs fn) + k) = SingleOutputArg dst
                    \<and> params' ! (length (m_inputs fn) + k) = SingleOutputArg dst'
                    \<and> length dst' = length dst
                    \<and> (\<forall>i < length dst. dst' ! i = (if i \<in> set msk then xs ! i else dst ! i))))
             \<and> (in_category (input_socket fn (m_outputs fn ! k)) = Vector \<longrightarrow>
                  (\<exists>r xs dst dst'.
                      values_of s (m_outputs fn ! k) = Some (VirtualListList r)
                    \<and> vector_values params (heap s) r = Inr xs
                    \<and> params ! (length (m_inputs fn) + k) = VectorOutputArg dst
                    \<and> params' ! (length (m_inputs fn) + k) = VectorOutputArg dst'
                    \<and> length dst' = length dst
                    \<and> (\<forall>i < length dst.
                          dst' ! i = (if i \<in> set msk then dst ! i @ xs ! i else dst ! i))))"
    if "k < length (m_outputs fn)" for k
    using m that materialized_single[of fn msk params s k "params' ! (length (m_inputs fn) + k)"]
      materialized_vector[of fn msk params s k "params' ! (length (m_inputs fn) + k)"]
    by blast
  with c l f show ?G
    by blast
next
  show "\<exists>s. call add_one_network [0, 1, 2]
             [ReadonlySingleArg [Some 1, Some 2, Some 3], SingleOutputArg [d0, d1, d2]]
           = Some (Inr ([ReadonlySingleArg [Some 1, Some 2, Some 3],
                         SingleOutputArg [Some 2, Some 3, Some 4]], Some s))"
    by (rule add_one_network_run_full_mask)
next
  show "\<exists>s. call add_one_network [0, 2]
             [ReadonlySingleArg [Some 1, Some 2, Some 3], SingleOutputArg [d0, d1, d2]]
           = Some (Inr ([ReadonlySingleArg [Some 1, Some 2, Some 3],
                         SingleOutputArg [Some 2, d1, Some 4]], Some s))"
    by (rule add_one_network_run_any_destination)
qed

theorem boundary_output_materialization_witness:
  "wf_network vector_network \<and> acyclic (node_deps vector_network)
   \<and> params_ok vector_network [0, 2]
       [ReadonlyVectorArg [[1], [2, 3], [4]], VectorOutputArg [[], [], []],
        SingleOutputArg [None, None, None], VectorOutputArg [[], [], []]]
   \<and> distinct [0, 2 :: nat] \<and> [0, 2 :: nat] \<noteq> []
   \<and> in_category (input_socket vector_network (m_outputs vector_network ! 1)) = Single
   \<and> in_category (input_socket vector_network (m_outputs vector_network ! 0)) = Vector
   \<and> (\<exists>params' s xs dst'.
         call vector_network [0, 2]
           [ReadonlyVectorArg [[1], [2, 3], [4]], VectorOutputArg [[], [], []],
            SingleOutputArg [None, None, None], VectorOutputArg [[], [], []]]
           = Some (Inr (params', Some s))
       \<and> params' ! 0 = ReadonlyVectorArg [[1], [2, 3], [4]]
       \<and> params' ! 2 = SingleOutputArg dst' \<and> dst' ! 1 = None \<and> dst' ! 0 = xs ! 0)
   \<and> (\<exists>s. call add_one_network [0, 2]
             [ReadonlySingleArg [Some 1, Some 2, Some 3], SingleOutputArg [Some 7, Some 8, Some 9]]
           = Some (Inr ([ReadonlySingleArg [Some 1, Some 2, Some 3],
                         SingleOutputArg [Some 2, Some 8, Some 4]], Some s)))"
proof -
  let ?ps = "[ReadonlyVectorArg [[1], [2, 3], [4]], VectorOutputArg [[], [], []],
        SingleOutputArg [None, None, None], VectorOutputArg [[], [], []]]"
  have d: "distinct [0, 2 :: nat]" "[0, 2 :: nat] \<noteq> []" by simp_all
  have cat: "in_category (input_socket vector_network (m_outputs vector_network ! 1)) = Single"
    "in_category (input_socket vector_network (m_outputs vector_network ! 0)) = Vector"
    by (simp_all add: graph_defs example_defs)
  have len: "length (m_inputs vector_network) = 1" "length (m_outputs vector_network) = 3"
    by (simp_all add: example_defs)
  note t = boundary_output_materialization[of vector_network "[0, 2]" ?ps "Some 7" "Some 8" "Some 9"]
  from t wf_vector_network acyclic_vector_network params_ok_vector_network(2) d
  obtain params' s where c: "call vector_network [0, 2] ?ps = Some (Inr (params', Some s))"
    and f: "\<forall>j < length (m_inputs vector_network). params' ! j = ?ps ! j"
    and m: "\<forall>k < length (m_outputs vector_network).
               (in_category (input_socket vector_network (m_outputs vector_network ! k)) = Single \<longrightarrow>
                  (\<exists>r xs dst dst'.
                      values_of s (m_outputs vector_network ! k) = Some (VirtualList r)
                    \<and> single_values ?ps (heap s) r = Inr xs
                    \<and> ?ps ! (length (m_inputs vector_network) + k) = SingleOutputArg dst
                    \<and> params' ! (length (m_inputs vector_network) + k) = SingleOutputArg dst'
                    \<and> length dst' = length dst
                    \<and> (\<forall>i < length dst. dst' ! i = (if i \<in> set [0, 2] then xs ! i else dst ! i))))"
    by blast
  from f len have p0: "params' ! 0 = ReadonlyVectorArg [[1], [2, 3], [4]]" by simp
  from m len cat(1) obtain xs dst dst' where
    o: "?ps ! (1 + 1) = SingleOutputArg dst" "params' ! (1 + 1) = SingleOutputArg dst'"
      "\<forall>i < length dst. dst' ! i = (if i \<in> set [0, 2] then xs ! i else dst ! i)"
    by (metis one_less_numeral_iff semiring_norm(77))
  from o(1) have dst: "dst = [None, None, None]" by simp
  from o(3) dst have "dst' ! 1 = None" "dst' ! 0 = xs ! 0" by simp_all
  with c p0 o(2) have e: "\<exists>params' s xs dst'.
         call vector_network [0, 2] ?ps = Some (Inr (params', Some s))
       \<and> params' ! 0 = ReadonlyVectorArg [[1], [2, 3], [4]]
       \<and> params' ! 2 = SingleOutputArg dst' \<and> dst' ! 1 = None \<and> dst' ! 0 = xs ! 0"
    by (auto simp: numeral_2_eq_2)
  from t have "\<exists>s. call add_one_network [0, 2]
             [ReadonlySingleArg [Some 1, Some 2, Some 3], SingleOutputArg [Some 7, Some 8, Some 9]]
           = Some (Inr ([ReadonlySingleArg [Some 1, Some 2, Some 3],
                         SingleOutputArg [Some 2, Some 8, Some 4]], Some s))" by blast
  with wf_vector_network acyclic_vector_network params_ok_vector_network(2) d cat e
  show ?thesis by blast
qed

text \<open>
  C10 (caller parameter layout). The binding loop reads the declared network input at
  position \<open>i\<close> from the caller's parameter \<open>i\<close>: whenever it succeeds, every consumer the
  scheduler can demand of that input's socket is bound to parameter \<open>i\<close> (a view of it or,
  for a mutable consumer, a copy of its collections). For a well-formed acyclic graph, a
  non-empty mask of distinct indices and a parameter list that holds one parameter per
  declared input followed by one per declared output, the call returns normally, the
  parameters \<open>0\<close> to \<open>length (m_inputs fn) - 1\<close> are returned as they were passed, and the
  destination written for the declared output at position \<open>k\<close> is the parameter
  \<open>length (m_inputs fn) + k\<close>.
\<close>

theorem caller_parameter_layout:
  "(\<forall>t t'. copy_inputs_to_storage fn params t = Inr t' \<longrightarrow>
       (\<forall>i < length (m_inputs fn). \<forall>tg \<in> set (targets (output_socket fn (m_inputs fn ! i))).
           demandable fn tg \<longrightarrow> input_bound params i t' tg))
   \<and> (wf_network fn \<and> acyclic (node_deps fn) \<and> params_ok fn msk params \<and> distinct msk \<and> msk \<noteq> []
        \<longrightarrow> (\<exists>s0 s params'.
                copy_inputs_to_storage fn params (new_state msk) = Inr s0
              \<and> call fn msk params = Some (Inr (params', Some s))
              \<and> length params' = length (m_inputs fn) + length (m_outputs fn)
              \<and> (\<forall>j < length (m_inputs fn). params' ! j = params ! j)
              \<and> (\<forall>k < length (m_outputs fn).
                    materialized fn msk params s k (params' ! (length (m_inputs fn) + k)))))"
  (is "?B \<and> (?H \<longrightarrow> ?G)")
proof (intro conjI impI)
  show ?B using copy_inputs_to_storage_result[of fn params] by blast
next
  assume ?H
  then have h: "wf_network fn" "acyclic (node_deps fn)" "params_ok fn msk params" "distinct msk"
    "msk \<noteq> []" by simp_all
  from h(3) have "length params = length (m_inputs fn) + length (m_outputs fn)"
    by (simp add: params_ok_def)
  with call_ok[OF h] show ?G by force
qed

theorem caller_parameter_layout_witness:
  "wf_network vector_network \<and> acyclic (node_deps vector_network)
   \<and> params_ok vector_network [0, 1]
       [ReadonlyVectorArg [[1], [2, 3]], VectorOutputArg [[], []], SingleOutputArg [None, None],
        VectorOutputArg [[], []]]
   \<and> distinct [0, 1 :: nat] \<and> [0, 1 :: nat] \<noteq> []
   \<and> 0 < length (m_inputs vector_network)
   \<and> 1 \<in> set (targets (output_socket vector_network (m_inputs vector_network ! 0)))
   \<and> demandable vector_network 1
   \<and> 2 < length (m_outputs vector_network)
   \<and> (\<exists>s0 s params'.
         copy_inputs_to_storage vector_network
           [ReadonlyVectorArg [[1], [2, 3]], VectorOutputArg [[], []], SingleOutputArg [None, None],
            VectorOutputArg [[], []]] (new_state [0, 1]) = Inr s0
       \<and> input_bound
           [ReadonlyVectorArg [[1], [2, 3]], VectorOutputArg [[], []], SingleOutputArg [None, None],
            VectorOutputArg [[], []]] 0 s0 1
       \<and> call vector_network [0, 1]
           [ReadonlyVectorArg [[1], [2, 3]], VectorOutputArg [[], []], SingleOutputArg [None, None],
            VectorOutputArg [[], []]] = Some (Inr (params', Some s))
       \<and> params' ! 0 = ReadonlyVectorArg [[1], [2, 3]]
       \<and> materialized vector_network [0, 1]
           [ReadonlyVectorArg [[1], [2, 3]], VectorOutputArg [[], []], SingleOutputArg [None, None],
            VectorOutputArg [[], []]] s 2 (params' ! 3)
       \<and> params' ! 3 = VectorOutputArg [[1, 0, 0], [2, 3, 0, 0]])"
proof -
  let ?ps = "[ReadonlyVectorArg [[1], [2, 3]], VectorOutputArg [[], []], SingleOutputArg [None, None],
        VectorOutputArg [[], []]]"
  have d: "distinct [0, 1 :: nat]" "[0, 1 :: nat] \<noteq> []" by simp_all
  have g: "0 < length (m_inputs vector_network)"
    "1 \<in> set (targets (output_socket vector_network (m_inputs vector_network ! 0)))"
    "demandable vector_network 1" "2 < length (m_outputs vector_network)"
    "length (m_inputs vector_network) = 1"
    by (simp_all add: graph_defs example_defs demandable_def)
  note t = caller_parameter_layout[of vector_network ?ps "[0, 1]"]
  from t wf_vector_network acyclic_vector_network params_ok_vector_network(1) d
  obtain s0 s params' where
    b: "copy_inputs_to_storage vector_network ?ps (new_state [0, 1]) = Inr s0"
    and c: "call vector_network [0, 1] ?ps = Some (Inr (params', Some s))"
    and f: "\<forall>j < length (m_inputs vector_network). params' ! j = ?ps ! j"
    and m: "\<forall>k < length (m_outputs vector_network).
               materialized vector_network [0, 1] ?ps s k
                 (params' ! (length (m_inputs vector_network) + k))"
    by blast
  from t b g have v: "input_bound ?ps 0 s0 1" by blast
  from f g have p0: "params' ! 0 = ReadonlyVectorArg [[1], [2, 3]]" by simp
  from m g(4) have "materialized vector_network [0, 1] ?ps s 2
      (params' ! (length (m_inputs vector_network) + 2))" by blast
  moreover have "length (m_inputs vector_network) + 2 = 3" by (simp add: g(5))
  ultimately have m2: "materialized vector_network [0, 1] ?ps s 2 (params' ! 3)"
    by (simp only:)
  from vector_network_run c have p3: "params' ! 3 = VectorOutputArg [[1, 0, 0], [2, 3, 0, 0]]"
    by auto
  from wf_vector_network acyclic_vector_network params_ok_vector_network(1) d g(1-4) b v c p0 m2 p3
  show ?thesis by blast
qed

text \<open>
  C8 (ownership-once discipline). For a well-formed acyclic graph, a non-empty mask of
  distinct indices and parameters that fit the declared inputs and outputs, the call
  returns normally in a state whose two registries together hold every buffer of the
  call's heap, each once: what the storage releases at call end is every buffer the engine
  allocated, each exactly once, whatever the number of sockets that reference it. The
  registration used for forwarded vectors is idempotent: registering an address that is
  registered changes nothing (the case of a mutable vector, registered when it was copied
  for its consumer and forwarded after the invocation), and it keeps a registry without
  repetition so.
\<close>

theorem buffers_registered_and_released_once:
  "(wf_network fn \<and> acyclic (node_deps fn) \<and> params_ok fn msk params \<and> distinct msk \<and> msk \<noteq> []
      \<longrightarrow> (\<exists>params' s.
             call fn msk params = Some (Inr (params', Some s))
           \<and> distinct (Storage_release (storage s))
           \<and> set (Storage_release (storage s)) = {..<length (heap s)}))
   \<and> take_vector_array_ownership__not_twice a (take_vector_array_ownership__not_twice a st)
       = take_vector_array_ownership__not_twice a st
   \<and> (a \<in> set (m_vector_arrays st) \<longrightarrow> take_vector_array_ownership__not_twice a st = st)
   \<and> (distinct (m_vector_arrays st)
        \<longrightarrow> distinct (m_vector_arrays (take_vector_array_ownership__not_twice a st)))"
  (is "(?H \<longrightarrow> ?G) \<and> ?I1 \<and> ?I2 \<and> ?I3")
proof (intro conjI impI)
  assume ?H
  then have h: "wf_network fn" "acyclic (node_deps fn)" "params_ok fn msk params" "distinct msk"
    "msk \<noteq> []" by simp_all
  from call_ok[OF h] obtain s params' where
    c: "call fn msk params = Some (Inr (params', Some s))"
    and ok: "state_ok fn msk params s" by blast
  from ok have "registry_ok s" by (simp add: state_ok_def)
  then have "distinct (Storage_release (storage s))"
    "set (Storage_release (storage s)) = {..<length (heap s)}"
    by (simp_all add: registry_ok_def)
  with c show ?G by blast
next
  show ?I1
    by (simp add: take_vector_array_ownership__not_twice_def take_vector_array_ownership_def)
next
  assume "a \<in> set (m_vector_arrays st)"
  then show "take_vector_array_ownership__not_twice a st = st"
    by (simp add: take_vector_array_ownership__not_twice_def)
next
  assume "distinct (m_vector_arrays st)"
  then show "distinct (m_vector_arrays (take_vector_array_ownership__not_twice a st))"
    by (simp add: take_vector_array_ownership__not_twice_def take_vector_array_ownership_def)
qed

theorem buffers_registered_and_released_once_witness:
  "wf_network vector_network \<and> acyclic (node_deps vector_network)
   \<and> params_ok vector_network [0, 1]
       [ReadonlyVectorArg [[1], [2, 3]], VectorOutputArg [[], []], SingleOutputArg [None, None],
        VectorOutputArg [[], []]]
   \<and> distinct [0, 1 :: nat] \<and> [0, 1 :: nat] \<noteq> []
   \<and> (\<exists>params' s.
         call vector_network [0, 1]
           [ReadonlyVectorArg [[1], [2, 3]], VectorOutputArg [[], []], SingleOutputArg [None, None],
            VectorOutputArg [[], []]] = Some (Inr (params', Some s))
       \<and> length (heap s) = 3
       \<and> Storage_release (storage s) = [0, 1, 2]
       \<and> distinct (Storage_release (storage s))
       \<and> set (Storage_release (storage s)) = {..<length (heap s)}
       \<and> 0 \<in> set (m_vector_arrays (storage s))
       \<and> take_vector_array_ownership__not_twice 0 (storage s) = storage s)"
proof -
  let ?ps = "[ReadonlyVectorArg [[1], [2, 3]], VectorOutputArg [[], []], SingleOutputArg [None, None],
        VectorOutputArg [[], []]]"
  have d: "distinct [0, 1 :: nat]" "[0, 1 :: nat] \<noteq> []" by simp_all
  from vector_network_run obtain s ps' where
    run: "call vector_network [0, 1] ?ps = Some (Inr (ps', Some s))"
    and hp: "heap s = [VectorBuf [[1, 0], [2, 3, 0]], VectorBuf [[1, 0, 0], [2, 3, 0, 0]],
                 ArrayBuf [Some 1, Some 2]]"
    and reg: "m_vector_arrays (storage s) = [0, 1]" "m_arrays (storage s) = [2]"
    by blast
  note t = buffers_registered_and_released_once[of vector_network "[0, 1]" ?ps 0 "storage s"]
  from t wf_vector_network acyclic_vector_network params_ok_vector_network(1) d
  obtain params' s' where c: "call vector_network [0, 1] ?ps = Some (Inr (params', Some s'))"
    and r: "distinct (Storage_release (storage s'))"
      "set (Storage_release (storage s')) = {..<length (heap s')}" by blast
  from c run have eq: "s' = s" by simp
  from reg have mem: "0 \<in> set (m_vector_arrays (storage s))" by simp
  with t have idem: "take_vector_array_ownership__not_twice 0 (storage s) = storage s" by blast
  from hp have l: "length (heap s) = 3" by simp
  from reg have rel: "Storage_release (storage s) = [0, 1, 2]" by (simp add: Storage_release_def)
  from wf_vector_network acyclic_vector_network params_ok_vector_network(1) d run l rel
    r[unfolded eq] mem idem
  show ?thesis by blast
qed

text \<open>
  C6 (mask locality), as stated, fails: an index outside the mask is touched. In a call of
  \<open>vector_network\<close> with the mask \<open>{0, 2}\<close> and three rows, the deep copy made for the
  mutable consumer of the network input extends index 1 of the vector array it has just
  allocated (all of whose collections are empty) by the caller's collection \<open>[2, 3]\<close>, and
  the copy made when the output of node 1 is forwarded does so again; at call end both
  buffers hold \<open>[2, 3]\<close> at index 1.
\<close>

theorem deep_copy_touches_index_outside_mask:
  "1 \<notin> set [0, 2 :: nat]
   \<and> heap (new_state [0, 2]) = []
   \<and> GenericVectorArray_new 3 = [[], [], []]
   \<and> map_sum id heap
        (bind_vector_input_target vector_network
           [ReadonlyVectorArg [[1], [2, 3], [4]], VectorOutputArg [[], [], []],
            SingleOutputArg [None, None, None], VectorOutputArg [[], [], []]]
           (ParamRef 0) 0 (new_state [0, 2]))
       = Inr [VectorBuf [[1], [2, 3], [4]]]
   \<and> (case call vector_network [0, 2]
              [ReadonlyVectorArg [[1], [2, 3], [4]], VectorOutputArg [[], [], []],
               SingleOutputArg [None, None, None], VectorOutputArg [[], [], []]] of
         Some (Inr (params', Some s)) \<Rightarrow>
           heap s = [VectorBuf [[1, 0], [2, 3], [4, 0]], VectorBuf [[1, 0, 0], [2, 3], [4, 0, 0]],
                     ArrayBuf [Some 1, None, Some 1]]
       | _ \<Rightarrow> False)"
  by (simp add: run_defs numeral_3_eq_3)

text \<open>
  C6, amended. For a well-formed acyclic graph, a non-empty mask of distinct indices and
  parameters that fit the declared inputs and outputs, the call returns normally; every
  buffer the call allocated has at least \<open>max(mask) + 1\<close> rows; and the writes to the
  caller's output destinations touch only indices of the mask: a destination keeps its
  length and, at every index outside the mask, what it held. The deep copy made for a
  mutable-vector consumer copies every index of its source, in the mask or not.
\<close>

theorem outward_writes_mask_local_and_buffers_cover_mask:
  "(wf_network fn \<and> acyclic (node_deps fn) \<and> params_ok fn msk params \<and> distinct msk \<and> msk \<noteq> []
      \<longrightarrow> (\<exists>params' s.
             call fn msk params = Some (Inr (params', Some s))
           \<and> (\<forall>b \<in> set (heap s). Suc (Max (set msk)) \<le> buffer_rows b)
           \<and> (\<forall>k < length (m_outputs fn).
                 (\<forall>dst. params ! (length (m_inputs fn) + k) = SingleOutputArg dst \<longrightarrow>
                    (\<exists>dst'. params' ! (length (m_inputs fn) + k) = SingleOutputArg dst'
                        \<and> length dst' = length dst
                        \<and> (\<forall>i < length dst. i \<notin> set msk \<longrightarrow> dst' ! i = dst ! i)))
               \<and> (\<forall>dst. params ! (length (m_inputs fn) + k) = VectorOutputArg dst \<longrightarrow>
                    (\<exists>dst'. params' ! (length (m_inputs fn) + k) = VectorOutputArg dst'
                        \<and> length dst' = length dst
                        \<and> (\<forall>i < length dst. i \<notin> set msk \<longrightarrow> dst' ! i = dst ! i))))))
   \<and> copy_vector_array src = Inr src"
  (is "(?H \<longrightarrow> ?G) \<and> ?C")
proof (intro conjI impI)
  assume ?H
  then have h: "wf_network fn" "acyclic (node_deps fn)" "params_ok fn msk params" "distinct msk"
    "msk \<noteq> []" by simp_all
  from call_ok[OF h] obtain s params' where
    c: "call fn msk params = Some (Inr (params', Some s))"
    and ok: "state_ok fn msk params s"
    and m: "\<forall>k < length (m_outputs fn).
               materialized fn msk params s k (params' ! (length (m_inputs fn) + k))" by blast
  from ok have "heap_rows_ok msk (heap s)" by (simp add: state_ok_def)
  with min_array_size_Max[OF h(5)]
  have rows: "\<forall>b \<in> set (heap s). Suc (Max (set msk)) \<le> buffer_rows b"
    by (simp add: heap_rows_ok_def)
  have frame: "(\<forall>dst. params ! (length (m_inputs fn) + k) = SingleOutputArg dst \<longrightarrow>
                    (\<exists>dst'. params' ! (length (m_inputs fn) + k) = SingleOutputArg dst'
                        \<and> length dst' = length dst
                        \<and> (\<forall>i < length dst. i \<notin> set msk \<longrightarrow> dst' ! i = dst ! i)))
               \<and> (\<forall>dst. params ! (length (m_inputs fn) + k) = VectorOutputArg dst \<longrightarrow>
                    (\<exists>dst'. params' ! (length (m_inputs fn) + k) = VectorOutputArg dst'
                        \<and> length dst' = length dst
                        \<and> (\<forall>i < length dst. i \<notin> set msk \<longrightarrow> dst' ! i = dst ! i)))"
    if k: "k < length (m_outputs fn)" for k
  proof (cases "in_category (input_socket fn (m_outputs fn ! k))")
    case Single
    from materialized_single[OF _ Single] m k obtain xs dst dst' where
      "params ! (length (m_inputs fn) + k) = SingleOutputArg dst"
      "params' ! (length (m_inputs fn) + k) = SingleOutputArg dst'" "length dst' = length dst"
      "\<forall>i < length dst. dst' ! i = (if i \<in> set msk then xs ! i else dst ! i)" by blast
    then show ?thesis by auto
  next
    case Vector
    from materialized_vector[OF _ Vector] m k obtain xs dst dst' where
      "params ! (length (m_inputs fn) + k) = VectorOutputArg dst"
      "params' ! (length (m_inputs fn) + k) = VectorOutputArg dst'" "length dst' = length dst"
      "\<forall>i < length dst. dst' ! i = (if i \<in> set msk then dst ! i @ xs ! i else dst ! i)" by blast
    then show ?thesis by auto
  qed
  from c rows frame show ?G by blast
next
  show ?C by (rule copy_vector_array_eq)
qed

theorem outward_writes_mask_local_and_buffers_cover_mask_witness:
  "wf_network add_one_network \<and> acyclic (node_deps add_one_network)
   \<and> params_ok add_one_network [0, 2]
       [ReadonlySingleArg [Some 1, Some 2, Some 3], SingleOutputArg [Some 7, Some 8, Some 9]]
   \<and> distinct [0, 2 :: nat] \<and> [0, 2 :: nat] \<noteq> []
   \<and> 1 \<notin> set [0, 2 :: nat]
   \<and> (\<exists>params' s dst'.
         call add_one_network [0, 2]
           [ReadonlySingleArg [Some 1, Some 2, Some 3], SingleOutputArg [Some 7, Some 8, Some 9]]
           = Some (Inr (params', Some s))
       \<and> params' ! 1 = SingleOutputArg dst' \<and> length dst' = 3 \<and> dst' ! 1 = Some 8
       \<and> list_all (\<lambda>b. 3 \<le> buffer_rows b) (heap s))
   \<and> copy_vector_array [[1], [2, 3], [4]] = Inr [[1], [2, 3], [4]]"
proof -
  let ?ps = "[ReadonlySingleArg [Some 1, Some 2, Some 3], SingleOutputArg [Some 7, Some 8, Some 9]]"
  have d: "distinct [0, 2 :: nat]" "[0, 2 :: nat] \<noteq> []" "1 \<notin> set [0, 2 :: nat]" by simp_all
  have g: "length (m_inputs add_one_network) = 1" "0 < length (m_outputs add_one_network)"
    by (simp_all add: example_defs)
  note t = outward_writes_mask_local_and_buffers_cover_mask[of add_one_network "[0, 2]" ?ps
      "[[1], [2, 3], [4]]"]
  have h: "wf_network add_one_network \<and> acyclic (node_deps add_one_network)
      \<and> params_ok add_one_network [0, 2] ?ps \<and> distinct [0, 2 :: nat] \<and> [0, 2 :: nat] \<noteq> []"
    using wf_add_one_network acyclic_add_one_network params_ok_add_one_network(2) d by simp
  from t[THEN conjunct1, THEN mp, OF h]
  obtain params' s where c: "call add_one_network [0, 2] ?ps = Some (Inr (params', Some s))"
    and rows: "\<forall>b \<in> set (heap s). Suc (Max (set [0, 2 :: nat])) \<le> buffer_rows b"
    and fr: "\<forall>k < length (m_outputs add_one_network).
                 (\<forall>dst. ?ps ! (length (m_inputs add_one_network) + k) = SingleOutputArg dst \<longrightarrow>
                    (\<exists>dst'. params' ! (length (m_inputs add_one_network) + k) = SingleOutputArg dst'
                        \<and> length dst' = length dst
                        \<and> (\<forall>i < length dst. i \<notin> set [0, 2] \<longrightarrow> dst' ! i = dst ! i)))
               \<and> (\<forall>dst. ?ps ! (length (m_inputs add_one_network) + k) = VectorOutputArg dst \<longrightarrow>
                    (\<exists>dst'. params' ! (length (m_inputs add_one_network) + k) = VectorOutputArg dst'
                        \<and> length dst' = length dst
                        \<and> (\<forall>i < length dst. i \<notin> set [0, 2] \<longrightarrow> dst' ! i = dst ! i)))"
    by (elim exE conjE)
  note f0 = fr[THEN spec, THEN mp, OF g(2), THEN conjunct1, THEN spec, THEN mp]
  have "?ps ! (length (m_inputs add_one_network) + 0) = SingleOutputArg [Some 7, Some 8, Some 9]"
    by (simp add: g(1))
  from f0[OF this] obtain dst' where
    o': "params' ! (length (m_inputs add_one_network) + 0) = SingleOutputArg dst'"
      "length dst' = length [Some 7, Some 8, Some (9 :: int)]"
      "\<forall>i < length [Some 7, Some 8, Some (9 :: int)].
          i \<notin> set [0, 2] \<longrightarrow> dst' ! i = [Some 7, Some 8, Some 9] ! i"
    by (elim exE conjE)
  from o'(1) have o1: "params' ! 1 = SingleOutputArg dst'" by (simp add: g(1))
  from o'(2) have o2: "length dst' = 3" by simp
  from o'(3)[THEN spec, of 1] have one: "dst' ! 1 = Some 8" by simp
  from rows have r3: "list_all (\<lambda>b. 3 \<le> buffer_rows b) (heap s)"
    by (simp add: list_all_iff)
  from t have cp: "copy_vector_array [[1], [2, 3], [4]] = Inr [[1], [2, 3], [4]]" by blast
  from c o1 o2 one r3 have e: "\<exists>params' s dst'.
         call add_one_network [0, 2] ?ps = Some (Inr (params', Some s))
       \<and> params' ! 1 = SingleOutputArg dst' \<and> length dst' = 3 \<and> dst' ! 1 = Some 8
       \<and> list_all (\<lambda>b. 3 \<le> buffer_rows b) (heap s)" by blast
  from h d(3) e cp show ?thesis by simp
qed

text \<open>
  C9 (failure semantics), as stated, fails: a malformed graph element is met and no fault
  is reported. In \<open>mismatched_network\<close> the Single network input is wired to the read-only
  vector parameter of node 1. The binding loop for a Single input (lines 24--27) stores the
  caller's list for that socket without looking at the consumer, no requested output needs
  node 1, and the call returns normally.
\<close>

theorem category_mismatch_is_not_reported:
  "\<not> wf_network mismatched_network
   \<and> is_function (node_of mismatched_network (in_node (input_socket mismatched_network 1)))
   \<and> input_param_type mismatched_network 1 = ReadonlyVectorInput
   \<and> out_category (output_socket mismatched_network (origin (input_socket mismatched_network 1)))
       = Single
   \<and> (case call mismatched_network [0] [ReadonlySingleArg [Some 5], SingleOutputArg [None]] of
         Some (Inr (params', Some s)) \<Rightarrow>
           params' = [ReadonlySingleArg [Some 5], SingleOutputArg [Some 5]]
           \<and> values_of s 1 = Some (VirtualList (ParamRef 0))
       | _ \<Rightarrow> False)"
  by (simp add: run_defs wf_defs)

text \<open>
  C9, amended. At the two dispatch points on a vector (the binding of a Vector network
  input, lines 39--53, and the forwarding of a vector output, lines 197--211) a consumer
  that is a function node whose parameter is neither a read-only vector input nor a
  mutable vector raises the assertion fault. No step catches a fault: a fault of an
  iteration is the fault of its loop, a fault of a scheduler step is the fault of the
  scheduler loop, and a call with a non-empty mask ends with a fault exactly when the input
  binding, the scheduler loop or the output copy does, with that fault.
\<close>

theorem unsupported_vector_consumer_faults_and_faults_propagate:
  "(is_function (node_of fn (in_node (input_socket fn tg)))
     \<and> in_index (input_socket fn tg)
         < length (input_param_indices (node_of fn (in_node (input_socket fn tg))))
     \<and> input_param_indices (node_of fn (in_node (input_socket fn tg))) ! in_index (input_socket fn tg)
         < length (param_types (node_function (node_of fn (in_node (input_socket fn tg)))))
     \<and> input_param_type fn tg \<noteq> ReadonlyVectorInput \<and> input_param_type fn tg \<noteq> MutableVector
     \<longrightarrow> bind_vector_input_target fn params r tg s = Inl AssertFalse
       \<and> forward_vector_target fn a tg s = Inl AssertFalse)
   \<and> (for_each body pre s = Inr t \<and> body x t = Inl e
        \<longrightarrow> for_each body (pre @ x # post) s = Inl e)
   \<and> (stack \<noteq> [] \<and> scheduler_step fn msk params (stack, s) = Inl e
        \<longrightarrow> scheduler_loop fn msk params (stack, s) = Some (Inl e))
   \<and> (msk \<noteq> [] \<longrightarrow>
        (call fn msk params = Some (Inl e) \<longleftrightarrow>
           copy_inputs_to_storage fn params (new_state msk) = Inl e
           \<or> (\<exists>s0. copy_inputs_to_storage fn params (new_state msk) = Inr s0
                 \<and> (evaluate_network_to_compute_outputs fn msk params s0 = Some (Inl e)
                    \<or> (\<exists>s1. evaluate_network_to_compute_outputs fn msk params s0 = Some (Inr s1)
                          \<and> copy_computed_values_to_outputs fn msk s1 params = Inl e)))))"
  (is "(?D \<longrightarrow> ?F) \<and> (?L \<longrightarrow> ?LF) \<and> (?S \<longrightarrow> ?SF) \<and> (?N \<longrightarrow> ?C)")
proof (intro conjI impI)
  assume d: ?D
  from d show "bind_vector_input_target fn params r tg s = Inl AssertFalse"
    by (simp add: bind_vector_input_target_def Let_def nth_checked_def param_type_def
        input_param_type_def)
  from d show "forward_vector_target fn a tg s = Inl AssertFalse"
    by (simp add: forward_vector_target_def Let_def nth_checked_def param_type_def
        input_param_type_def)
next
  assume ?L
  then show ?LF by (simp add: for_each_fault)
next
  assume ?S
  then show ?SF by (subst scheduler_loop.simps) simp
next
  assume ?N
  then show ?C
    by (auto simp: call_def indices_amount_def split: sum.splits option.splits)
qed

theorem unsupported_vector_consumer_faults_and_faults_propagate_witness:
  "is_function (node_of unsupported_consumer_network
       (in_node (input_socket unsupported_consumer_network 0)))
   \<and> in_index (input_socket unsupported_consumer_network 0)
       < length (input_param_indices (node_of unsupported_consumer_network
                   (in_node (input_socket unsupported_consumer_network 0))))
   \<and> input_param_indices (node_of unsupported_consumer_network
         (in_node (input_socket unsupported_consumer_network 0)))
         ! in_index (input_socket unsupported_consumer_network 0)
       < length (param_types (node_function (node_of unsupported_consumer_network
                   (in_node (input_socket unsupported_consumer_network 0)))))
   \<and> input_param_type unsupported_consumer_network 0 \<noteq> ReadonlyVectorInput
   \<and> input_param_type unsupported_consumer_network 0 \<noteq> MutableVector
   \<and> bind_vector_input_target unsupported_consumer_network
        [ReadonlyVectorArg [[1]], SingleOutputArg [None]] (ParamRef 0) 0 (new_state [0])
       = Inl AssertFalse
   \<and> [0 :: nat] \<noteq> []
   \<and> copy_inputs_to_storage unsupported_consumer_network
        [ReadonlyVectorArg [[1]], SingleOutputArg [None]] (new_state [0]) = Inl AssertFalse
   \<and> call unsupported_consumer_network [0] [ReadonlyVectorArg [[1]], SingleOutputArg [None]]
       = Some (Inl AssertFalse)"
proof -
  let ?fn = unsupported_consumer_network
  let ?ps = "[ReadonlyVectorArg [[1]], SingleOutputArg [None]]"
  have g: "is_function (node_of ?fn (in_node (input_socket ?fn 0)))
   \<and> in_index (input_socket ?fn 0)
       < length (input_param_indices (node_of ?fn (in_node (input_socket ?fn 0))))
   \<and> input_param_indices (node_of ?fn (in_node (input_socket ?fn 0))) ! in_index (input_socket ?fn 0)
       < length (param_types (node_function (node_of ?fn (in_node (input_socket ?fn 0)))))
   \<and> input_param_type ?fn 0 \<noteq> ReadonlyVectorInput
   \<and> input_param_type ?fn 0 \<noteq> MutableVector"
    by (simp add: graph_defs example_defs input_param_type_def)
  note t = unsupported_vector_consumer_faults_and_faults_propagate[of ?fn 0 ?ps "ParamRef 0"
      "new_state [0]" 0 "bind_vector_input_target ?fn ?ps (ParamRef 0)" "[]" "new_state [0]" 0
      AssertFalse "[]" "[InputSocket 1]" "[0]"]
  from t[THEN conjunct1, THEN mp, OF g]
  have b: "bind_vector_input_target ?fn ?ps (ParamRef 0) 0 (new_state [0]) = Inl AssertFalse"
    by (rule conjunct1)
  have "for_each (bind_vector_input_target ?fn ?ps (ParamRef 0)) [] (new_state [0])
          = Inr (new_state [0])" by simp
  with b t have "for_each (bind_vector_input_target ?fn ?ps (ParamRef 0)) ([] @ 0 # [])
      (new_state [0]) = Inl AssertFalse" by blast
  then have ci: "copy_inputs_to_storage ?fn ?ps (new_state [0]) = Inl AssertFalse"
    by (simp add: copy_inputs_to_storage_def copy_input_to_storage_def readonly_vector_input_def
        graph_defs example_defs)
  have ne: "[0 :: nat] \<noteq> []" by simp
  from t ne ci have c: "call ?fn [0] ?ps = Some (Inl AssertFalse)" by blast
  from g b ne ci c show ?thesis by simp
qed

end
